theory Spec2Isabelle
  imports Complex_Main "HOL-Library.Signed_Division"
begin

section \<open>Spectral clustering (cluster.cpp): data model\<close>

text \<open>
  The C++ code computes on \<^verbatim>\<open>float\<close>. The embedding takes the values of a \<^verbatim>\<open>float\<close>
  as real numbers. The arithmetic of binary32 is modelled where a result depends on it:
  \<open>float_round\<close> rounds a real number to the nearest binary32 value (ties to even) and
  is applied to every \<^verbatim>\<open>float\<close> operation of \<^verbatim>\<open>get_peak_bucket\<close>; the three sums of
  \<^verbatim>\<open>cosine_similarity\<close>, their product and the quotient overflow to an infinity and
  underflow to zero as in binary32, and the special values that they can produce are the
  constructors of \<open>fscore\<close>. The comparisons of peaks and of pepmasses are taken exactly,
  and so are the additions of the similarity loop, whose sums are checked against the
  range of binary32 when the loop has ended. Indices are natural numbers (\<^verbatim>\<open>int\<close> values
  that never go negative and are assumed not to overflow).
\<close>

type_synonym peak_t = real

text \<open>
  Modelled from the spec: \<^verbatim>\<open>spectrum_t\<close> is declared in cluster.h / spectra.cpp, which
  are absent. The spec's data model gives its four fields; \<open>num_peaks\<close> is the length of
  both arrays, which \<open>valid_spectrum\<close> records (the code reads \<open>peaks\<close> and
  \<open>intensities\<close> at indices below \<open>num_peaks\<close> without a check).
\<close>

record spectrum_t =
  pepmass :: real
  peaks :: "peak_t list"
  intensities :: "real list"
  num_peaks :: nat

definition valid_spectrum :: "spectrum_t \<Rightarrow> bool" where
  "valid_spectrum s \<longleftrightarrow>
     length (peaks s) = num_peaks s \<and> length (intensities s) = num_peaks s"

definition DEFAULT_PEPMASS_THRESHOLD :: real where
  "DEFAULT_PEPMASS_THRESHOLD = 2"

definition DEFAULT_PEAK_THRESHOLD :: real where
  "DEFAULT_PEAK_THRESHOLD = 2 / 100"

definition DEFAULT_SIMILARITY_THRESHOLD :: real where
  "DEFAULT_SIMILARITY_THRESHOLD = 7 / 10"

section \<open>Similarity engine\<close>

definition passes_pepmass_test :: "spectrum_t \<Rightarrow> spectrum_t \<Rightarrow> bool" where
  "passes_pepmass_test a b \<longleftrightarrow> \<bar>pepmass a - pepmass b\<bar> < DEFAULT_PEPMASS_THRESHOLD"

definition is_identical_peak :: "peak_t \<Rightarrow> peak_t \<Rightarrow> bool" where
  "is_identical_peak a b \<longleftrightarrow> \<bar>a - b\<bar> < DEFAULT_PEAK_THRESHOLD"

text \<open>
  The local variables of \<^verbatim>\<open>cosine_similarity\<close>: the cursors \<open>i\<close> and \<open>j\<close>, then
  \<open>score\<close>, \<open>a_den\<close> and \<open>b_den\<close>.
\<close>

type_synonym walk = "nat \<times> nat \<times> real \<times> real \<times> real"

definition cosine_cond :: "spectrum_t \<Rightarrow> spectrum_t \<Rightarrow> walk \<Rightarrow> bool" where
  "cosine_cond a b w = (case w of (i, j, score, a_den, b_den) \<Rightarrow>
     i < num_peaks a \<and> j < num_peaks b)"

text \<open>
  One execution of the loop body. The source has three guarded branches and no final
  \<^verbatim>\<open>else\<close>: when none of the guards holds the variables are left as they are.
\<close>

definition cosine_body :: "spectrum_t \<Rightarrow> spectrum_t \<Rightarrow> walk \<Rightarrow> walk" where
  "cosine_body a b w = (case w of (i, j, score, a_den, b_den) \<Rightarrow>
     if is_identical_peak (peaks a ! i) (peaks b ! j) then
       (i + 1, j + 1,
        score + intensities a ! i * intensities b ! j,
        a_den + (intensities a ! i)\<^sup>2,
        b_den + (intensities b ! j)\<^sup>2)
     else if peaks a ! i < peaks b ! j then
       (i + 1, j, score, a_den + (intensities a ! i)\<^sup>2, b_den)
     else if peaks a ! i > peaks b ! j then
       (i, j + 1, score, a_den, b_den + (intensities b ! j)\<^sup>2)
     else (i, j, score, a_den, b_den))"

definition walk_measure :: "spectrum_t \<Rightarrow> spectrum_t \<Rightarrow> walk \<Rightarrow> nat" where
  "walk_measure a b w = (case w of (i, j, score, a_den, b_den) \<Rightarrow>
     (num_peaks a - i) + (num_peaks b - j))"

text \<open>
  The loop itself. Its termination proof has to show that the branch without a guard is
  never taken: over the reals two peaks that are not within the tolerance are different,
  so one of them is the smaller.
\<close>

function cosine_loop :: "spectrum_t \<Rightarrow> spectrum_t \<Rightarrow> walk \<Rightarrow> walk" where
  "cosine_loop a b w = (if cosine_cond a b w then cosine_loop a b (cosine_body a b w) else w)"
  by pat_completeness auto
termination
  by (relation "measure (\<lambda>(a, b, w). walk_measure a b w)")
     (auto simp: cosine_cond_def cosine_body_def walk_measure_def is_identical_peak_def
        DEFAULT_PEAK_THRESHOLD_def)

declare cosine_loop.simps [simp del]

text \<open>The same loop with a bound on the number of iterations; \<open>None\<close> when it is exceeded.\<close>

fun cosine_loop_fuel :: "nat \<Rightarrow> spectrum_t \<Rightarrow> spectrum_t \<Rightarrow> walk \<Rightarrow> walk option" where
  "cosine_loop_fuel 0 a b w = (if cosine_cond a b w then None else Some w)"
| "cosine_loop_fuel (Suc n) a b w =
     (if cosine_cond a b w then cosine_loop_fuel n a b (cosine_body a b w) else Some w)"

text \<open>
  The result of a \<^verbatim>\<open>float\<close> operation: a finite value, an infinity or NaN
  (IEEE 754: \<open>0/0\<close> is NaN, \<open>x/0\<close> is an infinity with the sign of \<open>x\<close>, a finite value
  divided by an infinity is zero, the square root of a negative number is NaN, and every
  comparison with NaN is false).
\<close>

datatype fscore = Finite real | PosInf | NegInf | NaN

text \<open>
  The range of binary32 under rounding to nearest: a magnitude from \<open>2^128 - 2^103\<close> on
  becomes an infinity, a magnitude up to \<open>2^-150\<close> becomes zero. A value in between is
  kept as it is (its rounding is not modelled).
\<close>

definition FLT_OVERFLOW :: real where
  "FLT_OVERFLOW = 2 ^ 128 - 2 ^ 103"

definition FLT_UNDERFLOW :: real where
  "FLT_UNDERFLOW = 1 / 2 ^ 150"

definition float_range :: "real \<Rightarrow> fscore" where
  "float_range x =
     (if FLT_OVERFLOW \<le> x then PosInf
      else if x \<le> - FLT_OVERFLOW then NegInf
      else if \<bar>x\<bar> \<le> FLT_UNDERFLOW then Finite 0
      else Finite x)"

fun float_sqrt :: "fscore \<Rightarrow> fscore" where
  "float_sqrt (Finite x) = (if x < 0 then NaN else Finite (sqrt x))"
| "float_sqrt PosInf = PosInf"
| "float_sqrt NegInf = NaN"
| "float_sqrt NaN = NaN"

text \<open>
  Product and quotient of \<^verbatim>\<open>float\<close> results (the sign of a zero is not modelled; the
  divisor below is a square root and never negative).
\<close>

fun float_mul :: "fscore \<Rightarrow> fscore \<Rightarrow> fscore" where
  "float_mul NaN y = NaN"
| "float_mul x NaN = NaN"
| "float_mul (Finite x) (Finite y) = float_range (x * y)"
| "float_mul (Finite x) PosInf = (if x = 0 then NaN else if 0 < x then PosInf else NegInf)"
| "float_mul (Finite x) NegInf = (if x = 0 then NaN else if 0 < x then NegInf else PosInf)"
| "float_mul PosInf (Finite y) = (if y = 0 then NaN else if 0 < y then PosInf else NegInf)"
| "float_mul NegInf (Finite y) = (if y = 0 then NaN else if 0 < y then NegInf else PosInf)"
| "float_mul PosInf PosInf = PosInf"
| "float_mul PosInf NegInf = NegInf"
| "float_mul NegInf PosInf = NegInf"
| "float_mul NegInf NegInf = PosInf"

fun float_div :: "fscore \<Rightarrow> fscore \<Rightarrow> fscore" where
  "float_div NaN y = NaN"
| "float_div x NaN = NaN"
| "float_div (Finite x) (Finite y) =
     (if y = 0 then (if x = 0 then NaN else if 0 < x then PosInf else NegInf)
      else float_range (x / y))"
| "float_div (Finite x) PosInf = Finite 0"
| "float_div (Finite x) NegInf = Finite 0"
| "float_div PosInf (Finite y) = (if 0 \<le> y then PosInf else NegInf)"
| "float_div NegInf (Finite y) = (if 0 \<le> y then NegInf else PosInf)"
| "float_div PosInf PosInf = NaN"
| "float_div PosInf NegInf = NaN"
| "float_div NegInf PosInf = NaN"
| "float_div NegInf NegInf = NaN"

fun float_gt :: "fscore \<Rightarrow> real \<Rightarrow> bool" where
  "float_gt (Finite x) t = (x > t)"
| "float_gt PosInf t = True"
| "float_gt NegInf t = False"
| "float_gt NaN t = False"

text \<open>
  \<^verbatim>\<open>score / sqrt(a_den * b_den)\<close>. The three sums are \<^verbatim>\<open>float\<close>s: the loop adds them up
  exactly in the model, and whether a sum has left the range of \<^verbatim>\<open>float\<close> is decided on
  its exact value. Their product is a product of \<^verbatim>\<open>float\<close>s, and the quotient is returned
  as a \<^verbatim>\<open>float\<close>.
\<close>

definition cosine_similarity :: "spectrum_t \<Rightarrow> spectrum_t \<Rightarrow> fscore" where
  "cosine_similarity a b = (case cosine_loop a b (0, 0, 0, 0, 0) of
     (i, j, score, a_den, b_den) \<Rightarrow>
       float_div (float_range score)
         (float_sqrt (float_mul (float_range a_den) (float_range b_den))))"

definition is_similar :: "spectrum_t \<Rightarrow> spectrum_t \<Rightarrow> bool" where
  "is_similar a b = float_gt (cosine_similarity a b) DEFAULT_SIMILARITY_THRESHOLD"

section \<open>Cluster initialisation\<close>

definition initialize_cluster :: "nat \<Rightarrow> nat list" where
  "initialize_cluster sz = foldl (\<lambda>clusters i. clusters[i := i]) (replicate sz 0) [0..<sz]"

section \<open>Bucket index\<close>

text \<open>
  Rounding to the nearest integer, ties to the even one, and with it rounding to the
  nearest binary32 value: the spacing of binary32 at \<open>x\<close> is \<open>2 ^ (e - 23)\<close> for the
  exponent \<open>e\<close> of \<open>x\<close>, which is at least \<open>-126\<close> (the subnormal numbers).
\<close>

definition round_even :: "real \<Rightarrow> int" where
  "round_even x =
     (let f = \<lfloor>x\<rfloor>; r = x - of_int f
      in if r < 1 / 2 then f else if 1 / 2 < r then f + 1 else if even f then f else f + 1)"

definition float_exponent :: "real \<Rightarrow> int" where
  "float_exponent x = max \<lfloor>log 2 \<bar>x\<bar>\<rfloor> (- 126)"

definition float_ulp :: "real \<Rightarrow> real" where
  "float_ulp x = 2 powi (float_exponent x - 23)"

definition float_round :: "real \<Rightarrow> real" where
  "float_round x = (if x = 0 then 0 else of_int (round_even (x / float_ulp x)) * float_ulp x)"

text \<open>The real numbers that are values of binary32.\<close>

definition is_float :: "real \<Rightarrow> bool" where
  "is_float x \<longleftrightarrow> float_round x = x \<and> \<bar>x\<bar> < 2 ^ 128"

definition floorf :: "real \<Rightarrow> real" where
  "floorf x = of_int \<lfloor>x\<rfloor>"

text \<open>
  The conversion of a \<^verbatim>\<open>float\<close> to \<^verbatim>\<open>int\<close> truncates. Outside the range of \<^verbatim>\<open>int\<close> it
  is undefined in C++; the model takes the value that the conversion instruction of x86
  yields there, the least \<^verbatim>\<open>int\<close>.
\<close>

definition float_to_int :: "real \<Rightarrow> int" where
  "float_to_int x =
     (if - (2 ^ 31) \<le> x \<and> x < 2 ^ 31 then (if 0 \<le> x then \<lfloor>x\<rfloor> else \<lceil>x\<rceil>)
      else - (2 ^ 31))"

definition digit_char :: "nat \<Rightarrow> char" where
  "digit_char d = ''0123456789'' ! d"

fun decimal :: "nat \<Rightarrow> string" where
  "decimal n = (if n < 10 then [digit_char n] else decimal (n div 10) @ [digit_char (n mod 10)])"

declare decimal.simps [simp del]

text \<open>
  \<open>hundredths_text m\<close> is the two-decimal text of \<open>m / 100\<close>. \<open>printf_2f x\<close> is the text
  that the format \<^verbatim>\<open>%.2f\<close> produces for \<open>x\<close>: the sign, and \<open>\<bar>x\<bar>\<close> rounded to hundredths.
  \<open>snprintf n\<close> keeps at most \<open>n - 1\<close> characters of a text (the last byte of the buffer
  is the terminator).
\<close>

definition hundredths_text :: "nat \<Rightarrow> string" where
  "hundredths_text m =
     decimal (m div 100) @ ''.'' @ [digit_char (m mod 100 div 10), digit_char (m mod 10)]"

definition printf_2f :: "real \<Rightarrow> string" where
  "printf_2f x =
     (if x < 0 then ''-'' else []) @ hundredths_text (nat (round_even (\<bar>x\<bar> * 100)))"

definition snprintf :: "nat \<Rightarrow> string \<Rightarrow> string" where
  "snprintf n str = take (n - 1) str"

text \<open>
  \<^verbatim>\<open>peak * 100\<close> is a product of \<^verbatim>\<open>float\<close>s and is rounded; \<^verbatim>\<open>floorf\<close> of it is converted
  to \<^verbatim>\<open>int\<close>; the division by 2 is the C division of integers, which truncates towards
  zero (\<open>sdiv\<close>); \<^verbatim>\<open>nearest/100.f\<close> converts \<open>nearest\<close> to \<^verbatim>\<open>float\<close> and divides in
  \<^verbatim>\<open>float\<close>, rounding twice.
\<close>

definition get_peak_bucket :: "peak_t \<Rightarrow> string" where
  "get_peak_bucket peak =
     (let round_peak = float_to_int (floorf (float_round (peak * 100)));
          nearest = (round_peak sdiv 2) * 2
      in snprintf 10 (printf_2f (float_round (float_round (of_int nearest) / 100))))"

type_synonym peak_buckets = "string \<rightharpoonup> nat list"

definition get_common_peak_candidates :: "spectrum_t \<Rightarrow> peak_buckets \<Rightarrow> nat list" where
  "get_common_peak_candidates spectrum peak_buckets =
     (let sz = min 5 (num_peaks spectrum);
          candidates = foldl (\<lambda>candidates i.
             let peak_str = get_peak_bucket (peaks spectrum ! i) in
             case peak_buckets peak_str of
               None \<Rightarrow> candidates
             | Some bucket \<Rightarrow> candidates @ bucket) [] [0..<sz]
      in sorted_list_of_set (set candidates))"

definition bucket_spectrum_peaks :: "peak_buckets \<Rightarrow> spectrum_t \<Rightarrow> nat \<Rightarrow> peak_buckets" where
  "bucket_spectrum_peaks peak_buckets spectrum idx =
     (let sz = min 5 (num_peaks spectrum) in
      foldl (\<lambda>buckets i.
         let peak = get_peak_bucket (peaks spectrum ! i) in
         buckets(peak \<mapsto> (case buckets peak of None \<Rightarrow> [] | Some bucket \<Rightarrow> bucket) @ [idx]))
        peak_buckets [0..<sz])"

section \<open>Clustering drivers\<close>

text \<open>
  The inner loop of \<^verbatim>\<open>cluster_spectra\<close>: the first candidate that passes both tests,
  where the source assigns and breaks; \<open>None\<close> when \<^verbatim>\<open>new_cluster\<close> stays true.
\<close>

fun scan_candidates :: "spectrum_t list \<Rightarrow> nat \<Rightarrow> nat list \<Rightarrow> nat option" where
  "scan_candidates spectra i [] = None"
| "scan_candidates spectra i (candidate # rest) =
     (if passes_pepmass_test (spectra ! i) (spectra ! candidate) \<and>
         is_similar (spectra ! i) (spectra ! candidate)
      then Some candidate
      else scan_candidates spectra i rest)"

text \<open>One iteration of the outer loop, on the array and the bucket index.\<close>

fun cluster_iteration ::
  "spectrum_t list \<Rightarrow> nat list \<times> peak_buckets \<Rightarrow> nat \<Rightarrow> nat list \<times> peak_buckets" where
  "cluster_iteration spectra (clusters, peak_buckets) i =
     (let candidates = get_common_peak_candidates (spectra ! i) peak_buckets in
      (case scan_candidates spectra i candidates of
         Some candidate \<Rightarrow> (clusters[i := candidate], peak_buckets)
       | None \<Rightarrow> (clusters, bucket_spectrum_peaks peak_buckets (spectra ! i) i)))"

text \<open>The state after the first \<open>k\<close> iterations of the outer loop.\<close>

definition cluster_spectra_upto ::
  "nat \<Rightarrow> nat list \<Rightarrow> spectrum_t list \<Rightarrow> nat list \<times> peak_buckets" where
  "cluster_spectra_upto k clusters spectra =
     foldl (cluster_iteration spectra) (clusters, Map.empty) [0..<k]"

definition cluster_spectra :: "nat list \<Rightarrow> spectrum_t list \<Rightarrow> nat list" where
  "cluster_spectra clusters spectra =
     fst (cluster_spectra_upto (length spectra) clusters spectra)"

text \<open>
  The inner loop of \<^verbatim>\<open>naive_cluster_spectra\<close> over the remaining values of \<open>j\<close>, with
  the set \<^verbatim>\<open>seen_candidates\<close>.
\<close>

fun naive_scan ::
  "spectrum_t list \<Rightarrow> nat \<Rightarrow> nat list \<Rightarrow> nat set \<Rightarrow> nat list \<Rightarrow> nat list" where
  "naive_scan spectra i [] seen_candidates clusters = clusters"
| "naive_scan spectra i (j # js) seen_candidates clusters =
     (let candidate = clusters ! j in
      if candidate \<in> seen_candidates then naive_scan spectra i js seen_candidates clusters
      else if passes_pepmass_test (spectra ! i) (spectra ! candidate) \<and>
              is_similar (spectra ! i) (spectra ! candidate)
      then clusters[i := candidate]
      else naive_scan spectra i js (insert candidate seen_candidates) clusters)"

definition naive_iteration :: "spectrum_t list \<Rightarrow> nat list \<Rightarrow> nat \<Rightarrow> nat list" where
  "naive_iteration spectra clusters i = naive_scan spectra i [0..<i] {} clusters"

definition naive_cluster_spectra_upto :: "nat \<Rightarrow> nat list \<Rightarrow> spectrum_t list \<Rightarrow> nat list" where
  "naive_cluster_spectra_upto k clusters spectra =
     foldl (naive_iteration spectra) clusters [1..<k]"

definition naive_cluster_spectra :: "nat list \<Rightarrow> spectrum_t list \<Rightarrow> nat list" where
  "naive_cluster_spectra clusters spectra =
     naive_cluster_spectra_upto (length spectra) clusters spectra"

text \<open>The cluster count that \<^verbatim>\<open>main\<close> reports: the size of the set of the array's values.\<close>

definition num_clusters :: "nat list \<Rightarrow> nat" where
  "num_clusters clusters = card (set clusters)"

section \<open>Notions used in the statements\<close>

text \<open>The test that both drivers apply to spectrum \<open>i\<close> and a candidate \<open>c\<close>.\<close>

definition accepts :: "spectrum_t list \<Rightarrow> nat \<Rightarrow> nat \<Rightarrow> bool" where
  "accepts spectra i c \<longleftrightarrow>
     passes_pepmass_test (spectra ! i) (spectra ! c) \<and> is_similar (spectra ! i) (spectra ! c)"

text \<open>The list stored under a key; empty when the key is absent.\<close>

definition bucket_of :: "peak_buckets \<Rightarrow> string \<Rightarrow> nat list" where
  "bucket_of peak_buckets key = (case peak_buckets key of None \<Rightarrow> [] | Some bucket \<Rightarrow> bucket)"

text \<open>
  The keys of the peaks that \<^verbatim>\<open>get_common_peak_candidates\<close> and
  \<^verbatim>\<open>bucket_spectrum_peaks\<close> probe, one per peak and in the order of the peaks.
\<close>

definition probe_keys :: "spectrum_t \<Rightarrow> string list" where
  "probe_keys spectrum =
     map (\<lambda>i. get_peak_bucket (peaks spectrum ! i)) [0..<min 5 (num_peaks spectrum)]"



text \<open>
  The invariant of the representative array after \<open>k\<close> spectra: every entry points to
  an earlier or equal index that is its own representative, the entries from \<open>k\<close> on
  are untouched, and every spectrum passes the pepmass test against its representative.
\<close>

definition rep_inv :: "spectrum_t list \<Rightarrow> nat \<Rightarrow> nat list \<Rightarrow> bool" where
  "rep_inv spectra k clusters \<longleftrightarrow>
     length clusters = length spectra \<and>
     (\<forall>j < length spectra.
        clusters ! j \<le> j \<and> clusters ! (clusters ! j) = clusters ! j \<and>
        (k \<le> j \<longrightarrow> clusters ! j = j) \<and>
        passes_pepmass_test (spectra ! j) (spectra ! (clusters ! j)))"

text \<open>
  The invariant of the bucket index after \<open>k\<close> spectra: every list is in non-decreasing
  order, and an index occurs in the list of a key once per probed peak with that key if it
  is below \<open>k\<close> and its own representative, and not at all otherwise.
\<close>

definition bucket_inv :: "spectrum_t list \<Rightarrow> nat \<Rightarrow> nat list \<Rightarrow> peak_buckets \<Rightarrow> bool" where
  "bucket_inv spectra k clusters peak_buckets \<longleftrightarrow>
     (\<forall>key. sorted (bucket_of peak_buckets key)) \<and>
     (\<forall>key x. count_list (bucket_of peak_buckets key) x =
        (if x < k \<and> clusters ! x = x then count_list (probe_keys (spectra ! x)) key else 0))"

definition heur_inv :: "spectrum_t list \<Rightarrow> nat \<Rightarrow> nat list \<times> peak_buckets \<Rightarrow> bool" where
  "heur_inv spectra k st \<longleftrightarrow>
     rep_inv spectra k (fst st) \<and> bucket_inv spectra k (fst st) (snd st)"

text \<open>The three spectra of the end-to-end scenario A of the specification.\<close>

definition S0 :: spectrum_t where
  "S0 = \<lparr>pepmass = 500, peaks = [100, 200, 300], intensities = [1, 1, 1], num_peaks = 3\<rparr>"

definition S1 :: spectrum_t where
  "S1 = \<lparr>pepmass = 1001 / 2, peaks = [100, 200, 300], intensities = [1, 1, 1], num_peaks = 3\<rparr>"

definition S2 :: spectrum_t where
  "S2 = \<lparr>pepmass = 550, peaks = [100, 200, 300], intensities = [1, 1, 1], num_peaks = 3\<rparr>"


text \<open>
  Three spectra with the peaks of scenario A whose pepmasses are 500, 501.5 and 498.5:
  the second and the third are both within 2 of the first, and 3 apart from each other.
\<close>

definition T0 :: spectrum_t where
  "T0 = \<lparr>pepmass = 500, peaks = [100, 200, 300], intensities = [1, 1, 1], num_peaks = 3\<rparr>"

definition T1 :: spectrum_t where
  "T1 = \<lparr>pepmass = 1003 / 2, peaks = [100, 200, 300], intensities = [1, 1, 1], num_peaks = 3\<rparr>"

definition T2 :: spectrum_t where
  "T2 = \<lparr>pepmass = 997 / 2, peaks = [100, 200, 300], intensities = [1, 1, 1], num_peaks = 3\<rparr>"

text \<open>A spectrum whose two peaks, 100.00 and 100.01, fall into the same bucket.\<close>

definition D0 :: spectrum_t where
  "D0 = \<lparr>pepmass = 500, peaks = [100, 10001 / 100], intensities = [1, 1], num_peaks = 2\<rparr>"

text \<open>The bucket index after a spectrum with the peaks 100, 200 and 300 is registered as 0.\<close>

definition pb_example :: peak_buckets where
  "pb_example = [''100.00'' \<mapsto> [0], ''200.00'' \<mapsto> [0], ''300.00'' \<mapsto> [0]]"

text \<open>
  The bucket key in the words of the specification: the floor of \<open>peak * 100\<close> as an
  integer, rounded down to the nearest even value, and that even value divided by 100 as
  a two-decimal text. (\<open>div\<close> on \<open>int\<close> rounds down.)
\<close>

definition two_decimal_text :: "int \<Rightarrow> string" where
  "two_decimal_text h = (if h < 0 then ''-'' else []) @ hundredths_text (nat \<bar>h\<bar>)"

definition bucket_key_spec :: "peak_t \<Rightarrow> string" where
  "bucket_key_spec p =
     (let fl = \<lfloor>p * 100\<rfloor>;
          even_value = 2 * (fl div 2)
      in two_decimal_text even_value)"

text \<open>The same with the product \<open>peak * 100\<close> rounded to a \<^verbatim>\<open>float\<close>, as the code has it.\<close>

definition bucket_key_float :: "peak_t \<Rightarrow> string" where
  "bucket_key_float p =
     (let fl = \<lfloor>float_round (p * 100)\<rfloor>;
          even_value = 2 * (fl div 2)
      in two_decimal_text even_value)"




section \<open>The similarity loop\<close>

lemma cosine_body_cursors:
  assumes "cosine_cond a b w"
  shows "fst w \<le> fst (cosine_body a b w) \<and>
         fst (snd w) \<le> fst (snd (cosine_body a b w)) \<and>
         fst w + fst (snd w) < fst (cosine_body a b w) + fst (snd (cosine_body a b w))"
  using assms
  by (cases w)
     (auto simp: cosine_cond_def cosine_body_def is_identical_peak_def DEFAULT_PEAK_THRESHOLD_def)

lemma cosine_body_measure:
  "cosine_cond a b w \<Longrightarrow> walk_measure a b (cosine_body a b w) < walk_measure a b w"
  by (cases w)
     (auto simp: cosine_cond_def cosine_body_def walk_measure_def is_identical_peak_def
        DEFAULT_PEAK_THRESHOLD_def)

lemma cosine_loop_fuel_enough:
  "walk_measure a b w \<le> n \<Longrightarrow> cosine_loop_fuel n a b w = Some (cosine_loop a b w)"
proof (induction n arbitrary: w)
  case 0
  then have "\<not> cosine_cond a b w"
    by (cases w) (auto simp: walk_measure_def cosine_cond_def)
  then show ?case by (simp add: cosine_loop.simps)
next
  case (Suc n)
  show ?case
  proof (cases "cosine_cond a b w")
    case True
    with Suc.prems have "walk_measure a b (cosine_body a b w) \<le> n"
      using cosine_body_measure [of a b w] by simp
    then have "cosine_loop_fuel n a b (cosine_body a b w) = Some (cosine_loop a b (cosine_body a b w))"
      by (rule Suc.IH)
    with True show ?thesis by (simp add: cosine_loop.simps [of a b w])
  next
    case False
    then show ?thesis by (simp add: cosine_loop.simps)
  qed
qed










section \<open>Initialisation and the bucket index\<close>

lemma initialize_foldl:
  "k \<le> length xs \<Longrightarrow>
   foldl (\<lambda>clusters i. clusters[i := i]) xs [0..<k] = [0..<k] @ drop k xs"
proof (induction k)
  case 0
  then show ?case by simp
next
  case (Suc k)
  then have "foldl (\<lambda>clusters i. clusters[i := i]) xs [0..<Suc k] = ([0..<k] @ drop k xs)[k := k]"
    by simp
  also have "\<dots> = [0..<k] @ (drop k xs)[0 := k]"
    by (simp add: list_update_append)
  also have "\<dots> = [0..<k] @ k # drop (Suc k) xs"
    using Suc.prems by (simp add: Cons_nth_drop_Suc [symmetric])
  finally show ?case by simp
qed

lemma initialize_cluster_upt: "initialize_cluster sz = [0..<sz]"
  by (simp add: initialize_cluster_def initialize_foldl)

lemma scan_candidates_find: "scan_candidates spectra i cs = find (accepts spectra i) cs"
  by (induction cs) (auto simp: accepts_def)

lemma bucket_fold:
  fixes f :: "nat \<Rightarrow> string" and idx :: nat
  defines "step \<equiv> (\<lambda>buckets i. let peak = f i in
       buckets(peak \<mapsto> (case buckets peak of None \<Rightarrow> [] | Some bucket \<Rightarrow> bucket) @ [idx]))"
  shows "bucket_of (foldl step pb js) key =
   bucket_of pb key @ replicate (count_list (map f js) key) idx"
proof (induction js arbitrary: pb)
  case Nil
  then show ?case by simp
next
  case (Cons j js)
  have one: "bucket_of (step pb j) key =
      (if key = f j then bucket_of pb key @ [idx] else bucket_of pb key)"
    by (simp add: step_def bucket_of_def Let_def)
  have "bucket_of (foldl step pb (j # js)) key =
      bucket_of (step pb j) key @ replicate (count_list (map f js) key) idx"
    using Cons.IH [of "step pb j"] by simp
  then show ?case
    by (simp add: one replicate_append_same)
qed

lemma bucket_of_register:
  "bucket_of (bucket_spectrum_peaks pb s idx) key =
     bucket_of pb key @ replicate (count_list (probe_keys s) key) idx"
  unfolding bucket_spectrum_peaks_def probe_keys_def
  using bucket_fold [of "\<lambda>i. get_peak_bucket (peaks s ! i)" idx pb "[0..<min 5 (num_peaks s)]" key]
  by (simp only: Let_def)

lemma register_Some:
  "bucket_spectrum_peaks pb s idx key = Some b \<Longrightarrow>
   b = bucket_of pb key @ replicate (count_list (probe_keys s) key) idx"
  using bucket_of_register [of pb s idx key] by (simp add: bucket_of_def)

lemma candidates_fold_set:
  "set (foldl (\<lambda>candidates i. let peak_str = f i in
        case pb peak_str of None \<Rightarrow> candidates | Some bucket \<Rightarrow> candidates @ bucket) acc js) =
   set acc \<union> (\<Union>i \<in> set js. set (bucket_of pb (f i)))"
  by (induction js arbitrary: acc) (auto simp: bucket_of_def Let_def split: option.splits)

lemma set_candidates:
  "set (get_common_peak_candidates s pb) = (\<Union>key \<in> set (probe_keys s). set (bucket_of pb key))"
proof -
  have "set (get_common_peak_candidates s pb) =
      set (foldl (\<lambda>candidates i. let peak_str = get_peak_bucket (peaks s ! i) in
        case pb peak_str of None \<Rightarrow> candidates | Some bucket \<Rightarrow> candidates @ bucket)
        [] [0..<min 5 (num_peaks s)])"
    by (simp add: get_common_peak_candidates_def Let_def)
  also have "\<dots> = (\<Union>i \<in> set [0..<min 5 (num_peaks s)].
      set (bucket_of pb (get_peak_bucket (peaks s ! i))))"
    by (subst candidates_fold_set) simp
  finally show ?thesis by (simp add: probe_keys_def)
qed

lemma candidates_sorted_distinct:
  "sorted (get_common_peak_candidates s pb) \<and> distinct (get_common_peak_candidates s pb)"
  unfolding get_common_peak_candidates_def Let_def by simp

section \<open>Invariants of the drivers\<close>

lemma passes_pepmass_refl: "passes_pepmass_test a a"
  by (simp add: passes_pepmass_test_def DEFAULT_PEPMASS_THRESHOLD_def)

lemma rep_inv_init: "rep_inv spectra 0 [0..<length spectra]"
  by (simp add: rep_inv_def passes_pepmass_refl)

lemma rep_inv_keep: "rep_inv spectra k clusters \<Longrightarrow> rep_inv spectra (Suc k) clusters"
  by (simp add: rep_inv_def)

lemma rep_inv_update:
  assumes inv: "rep_inv spectra k clusters" and k: "k < length spectra"
    and c: "c < k" "clusters ! c = c"
    and pass: "passes_pepmass_test (spectra ! k) (spectra ! c)"
  shows "rep_inv spectra (Suc k) (clusters[k := c])"
proof -
  note inv' = inv [unfolded rep_inv_def]
  have "clusters[k := c] ! j \<le> j \<and>
        clusters[k := c] ! (clusters[k := c] ! j) = clusters[k := c] ! j \<and>
        (Suc k \<le> j \<longrightarrow> clusters[k := c] ! j = j) \<and>
        passes_pepmass_test (spectra ! j) (spectra ! (clusters[k := c] ! j))"
    if j: "j < length spectra" for j
  proof (cases "j = k")
    case True
    with c k inv' pass show ?thesis by simp
  next
    case False
    have "clusters ! j \<noteq> k"
    proof
      assume eq: "clusters ! j = k"
      with inv' j have "k \<le> j" by auto
      with inv' j have "clusters ! j = j" by auto
      with eq False show False by simp
    qed
    with False inv' j show ?thesis by simp
  qed
  with inv' show ?thesis by (simp add: rep_inv_def)
qed

lemma count_list_pos_iff: "0 < count_list xs x \<longleftrightarrow> x \<in> set xs"
  using count_list_0_iff [of xs x] by auto

lemma count_list_replicate: "count_list (replicate n x) y = (if x = y then n else 0)"
  by (induction n) auto

lemma find_SomeD: "find P xs = Some x \<Longrightarrow> x \<in> set xs \<and> P x"
  by (induction xs) (auto split: if_splits)

lemma bucket_inv_member:
  assumes "bucket_inv spectra k clusters pb" and "x \<in> set (bucket_of pb key)"
  shows "x < k \<and> clusters ! x = x"
proof -
  from assms(2) have "count_list (bucket_of pb key) x \<noteq> 0"
    by (simp add: count_list_0_iff)
  with assms(1) show ?thesis
    by (auto simp: bucket_inv_def split: if_splits)
qed

lemma bucket_inv_register:
  assumes inv: "bucket_inv spectra k clusters pb" and kk: "clusters ! k = k"
  shows "bucket_inv spectra (Suc k) clusters (bucket_spectrum_peaks pb (spectra ! k) k)"
proof -
  have "sorted (bucket_of (bucket_spectrum_peaks pb (spectra ! k) k) key)" for key
  proof -
    have "\<forall>x \<in> set (bucket_of pb key). x \<le> k"
      using bucket_inv_member [OF inv] by (auto intro: less_imp_le)
    with inv show ?thesis
      by (auto simp: bucket_inv_def bucket_of_register sorted_append)
  qed
  moreover have "count_list (bucket_of (bucket_spectrum_peaks pb (spectra ! k) k) key) x =
      (if x < Suc k \<and> clusters ! x = x then count_list (probe_keys (spectra ! x)) key else 0)"
    for key x
    using inv kk
    by (auto simp: bucket_inv_def bucket_of_register count_list_replicate less_Suc_eq)
  ultimately show ?thesis by (simp add: bucket_inv_def)
qed

lemma bucket_inv_assign:
  assumes inv: "bucket_inv spectra k clusters pb" and c: "c \<noteq> k"
    and k: "k < length clusters"
  shows "bucket_inv spectra (Suc k) (clusters[k := c]) pb"
proof -
  have "count_list (bucket_of pb key) x =
      (if x < Suc k \<and> clusters[k := c] ! x = x then count_list (probe_keys (spectra ! x)) key else 0)"
    for key x
  proof (cases "x = k")
    case True
    with c k inv show ?thesis
      by (simp add: bucket_inv_def)
  next
    case False
    with inv show ?thesis by (auto simp: bucket_inv_def less_Suc_eq)
  qed
  with inv show ?thesis by (simp add: bucket_inv_def)
qed

lemma upto_Suc:
  "cluster_spectra_upto (Suc k) clusters spectra =
     cluster_iteration spectra (cluster_spectra_upto k clusters spectra) k"
  by (simp add: cluster_spectra_upto_def)

lemma heur_inv_step:
  assumes inv: "heur_inv spectra k st" and k: "k < length spectra"
  shows "heur_inv spectra (Suc k) (cluster_iteration spectra st k)"
proof -
  obtain clusters pb where st: "st = (clusters, pb)" by (cases st)
  from inv st have rep: "rep_inv spectra k clusters" and bkt: "bucket_inv spectra k clusters pb"
    by (simp_all add: heur_inv_def)
  let ?cands = "get_common_peak_candidates (spectra ! k) pb"
  show ?thesis
  proof (cases "scan_candidates spectra k ?cands")
    case None
    have "clusters ! k = k" using rep k by (simp add: rep_inv_def)
    with None st rep bkt show ?thesis
      by (simp add: heur_inv_def rep_inv_keep bucket_inv_register)
  next
    case (Some c)
    then have "c \<in> set ?cands" and acc: "accepts spectra k c"
      using find_SomeD [of "accepts spectra k" ?cands c] by (simp_all add: scan_candidates_find)
    then obtain key where "c \<in> set (bucket_of pb key)"
      by (auto simp: set_candidates)
    then have c: "c < k" "clusters ! c = c"
      using bucket_inv_member [OF bkt] by auto
    from acc have "passes_pepmass_test (spectra ! k) (spectra ! c)"
      by (simp add: accepts_def)
    moreover from rep k have "k < length clusters"
      by (simp add: rep_inv_def)
    ultimately show ?thesis
      using Some st rep bkt k c
      by (simp add: heur_inv_def rep_inv_update bucket_inv_assign)
  qed
qed

lemma heur_inv_upto:
  "k \<le> length spectra \<Longrightarrow>
   heur_inv spectra k (cluster_spectra_upto k (initialize_cluster (length spectra)) spectra)"
proof (induction k)
  case 0
  then show ?case
    by (simp add: cluster_spectra_upto_def initialize_cluster_upt heur_inv_def rep_inv_init
          bucket_inv_def bucket_of_def)
next
  case (Suc k)
  then show ?case
    by (simp add: upto_Suc heur_inv_step)
qed

section \<open>The naive driver\<close>

lemma find_filter_insert:
  "\<not> P c \<Longrightarrow> find P (filter (\<lambda>x. x \<notin> insert c S) xs) = find P (filter (\<lambda>x. x \<notin> S) xs)"
  by (induction xs) auto

lemma naive_scan_find:
  "naive_scan spectra i js seen clusters =
     (case find (accepts spectra i) (filter (\<lambda>c. c \<notin> seen) (map (\<lambda>j. clusters ! j) js)) of
        None \<Rightarrow> clusters
      | Some c \<Rightarrow> clusters[i := c])"
proof (induction js arbitrary: seen)
  case Nil
  then show ?case by simp
next
  case (Cons j js)
  show ?case
  proof (cases "clusters ! j \<in> seen")
    case True
    then show ?thesis by (simp add: Cons.IH)
  next
    case False
    show ?thesis
    proof (cases "accepts spectra i (clusters ! j)")
      case True
      with False show ?thesis by (simp add: accepts_def Let_def)
    next
      case False
      then have rej: "\<not> (passes_pepmass_test (spectra ! i) (spectra ! (clusters ! j)) \<and>
          is_similar (spectra ! i) (spectra ! (clusters ! j)))"
        by (simp add: accepts_def)
      have "naive_scan spectra i (j # js) seen clusters =
          naive_scan spectra i js (insert (clusters ! j) seen) clusters"
        using \<open>clusters ! j \<notin> seen\<close> rej by (auto simp: Let_def)
      also have "\<dots> = (case find (accepts spectra i)
            (filter (\<lambda>c. c \<notin> seen) (map (\<lambda>j. clusters ! j) js)) of
          None \<Rightarrow> clusters | Some c \<Rightarrow> clusters[i := c])"
        using find_filter_insert [of "accepts spectra i" "clusters ! j" seen, OF False]
        by (simp only: Cons.IH)
      finally show ?thesis
        using \<open>clusters ! j \<notin> seen\<close> False by simp
    qed
  qed
qed

lemma naive_iteration_find:
  "naive_iteration spectra clusters i =
     (case find (accepts spectra i) (map (\<lambda>j. clusters ! j) [0..<i]) of
        None \<Rightarrow> clusters
      | Some c \<Rightarrow> clusters[i := c])"
  by (simp add: naive_iteration_def naive_scan_find)

lemma naive_upto_Suc:
  "naive_cluster_spectra_upto (Suc k) clusters spectra =
     naive_iteration spectra (naive_cluster_spectra_upto k clusters spectra) k"
proof (cases k)
  case 0
  then show ?thesis by (simp add: naive_cluster_spectra_upto_def naive_iteration_def)
next
  case (Suc m)
  then show ?thesis by (simp add: naive_cluster_spectra_upto_def)
qed

lemma naive_inv_step:
  assumes inv: "rep_inv spectra k clusters" and k: "k < length spectra"
  shows "rep_inv spectra (Suc k) (naive_iteration spectra clusters k)"
proof (cases "find (accepts spectra k) (map (\<lambda>j. clusters ! j) [0..<k])")
  case None
  with inv show ?thesis by (simp add: naive_iteration_find rep_inv_keep)
next
  case (Some c)
  then have "c \<in> set (map (\<lambda>j. clusters ! j) [0..<k])" and acc: "accepts spectra k c"
    using find_SomeD [of "accepts spectra k" "map (\<lambda>j. clusters ! j) [0..<k]" c] by simp_all
  then obtain j where j: "j < k" "c = clusters ! j" by auto
  from j k have "j < length spectra" by simp
  with inv have "clusters ! j \<le> j" "clusters ! (clusters ! j) = clusters ! j"
    by (simp_all add: rep_inv_def)
  with j have "c < k" "clusters ! c = c" by simp_all
  moreover from acc have "passes_pepmass_test (spectra ! k) (spectra ! c)"
    by (simp add: accepts_def)
  ultimately show ?thesis
    using Some inv k by (simp add: naive_iteration_find rep_inv_update)
qed

lemma naive_inv_upto:
  "k \<le> length spectra \<Longrightarrow>
   rep_inv spectra k (naive_cluster_spectra_upto k (initialize_cluster (length spectra)) spectra)"
proof (induction k)
  case 0
  then show ?case
    by (simp add: naive_cluster_spectra_upto_def initialize_cluster_upt rep_inv_init)
next
  case (Suc k)
  then show ?case
    by (simp add: naive_upto_Suc naive_inv_step)
qed

section \<open>Each iteration writes its own entry only\<close>

lemma iteration_frame:
  "length (fst (cluster_iteration spectra st i)) = length (fst st) \<and>
   (j \<noteq> i \<longrightarrow> fst (cluster_iteration spectra st i) ! j = fst st ! j)"
  by (cases st) (simp add: Let_def split: option.splits)

lemma upto_untouched:
  "k \<le> j \<Longrightarrow> fst (cluster_spectra_upto k clusters spectra) ! j = clusters ! j"
proof (induction k)
  case 0
  then show ?case by (simp add: cluster_spectra_upto_def)
next
  case (Suc k)
  then show ?case
    using iteration_frame [of spectra "cluster_spectra_upto k clusters spectra" k j]
    by (simp add: upto_Suc)
qed

lemma upto_stable:
  "k \<le> m \<Longrightarrow> j < k \<Longrightarrow>
   fst (cluster_spectra_upto m clusters spectra) ! j =
   fst (cluster_spectra_upto k clusters spectra) ! j"
proof (induction m)
  case 0
  then show ?case by simp
next
  case (Suc m)
  show ?case
  proof (cases "k = Suc m")
    case True
    then show ?thesis by simp
  next
    case False
    with Suc.prems have "k \<le> m" "j \<noteq> m" by auto
    then show ?thesis
      using Suc.IH Suc.prems(2)
        iteration_frame [of spectra "cluster_spectra_upto m clusters spectra" m j]
      by (simp add: upto_Suc)
  qed
qed

lemma upto_entry:
  assumes "k \<le> length spectra" and "j < length spectra"
  shows "fst (cluster_spectra_upto k (initialize_cluster (length spectra)) spectra) ! j =
     (if j < k then cluster_spectra (initialize_cluster (length spectra)) spectra ! j else j)"
proof (cases "j < k")
  case True
  with assms show ?thesis
    using upto_stable [of k "length spectra" j] by (simp add: cluster_spectra_def)
next
  case False
  with assms show ?thesis
    by (simp add: upto_untouched initialize_cluster_upt)
qed

section \<open>Consequences of the invariants\<close>

lemma heuristic_final_inv:
  "rep_inv spectra (length spectra) (cluster_spectra (initialize_cluster (length spectra)) spectra)"
  using heur_inv_upto [of "length spectra" spectra]
  by (simp add: heur_inv_def cluster_spectra_def)

lemma naive_final_inv:
  "rep_inv spectra (length spectra)
     (naive_cluster_spectra (initialize_cluster (length spectra)) spectra)"
  using naive_inv_upto [of "length spectra" spectra]
  by (simp add: naive_cluster_spectra_def)

lemma gate_from_inv:
  assumes inv: "rep_inv spectra (length spectra) r"
    and a: "a < length spectra" and b: "b < length spectra"
  shows "\<bar>pepmass (spectra ! a) - pepmass (spectra ! (r ! a))\<bar> < 2 \<and>
         (2 \<le> \<bar>pepmass (spectra ! a) - pepmass (spectra ! b)\<bar> \<and> r ! b = b \<longrightarrow> r ! a \<noteq> r ! b) \<and>
         (4 \<le> \<bar>pepmass (spectra ! a) - pepmass (spectra ! b)\<bar> \<longrightarrow> r ! a \<noteq> r ! b)"
proof -
  from inv a have pa: "\<bar>pepmass (spectra ! a) - pepmass (spectra ! (r ! a))\<bar> < 2"
    by (simp add: rep_inv_def passes_pepmass_test_def DEFAULT_PEPMASS_THRESHOLD_def)
  from inv b have pb: "\<bar>pepmass (spectra ! b) - pepmass (spectra ! (r ! b))\<bar> < 2"
    by (simp add: rep_inv_def passes_pepmass_test_def DEFAULT_PEPMASS_THRESHOLD_def)
  have "\<bar>pepmass (spectra ! a) - pepmass (spectra ! b)\<bar> < 2" if "r ! b = b" "r ! a = r ! b"
    using pa that by simp
  moreover have "\<bar>pepmass (spectra ! a) - pepmass (spectra ! b)\<bar> < 4" if "r ! a = r ! b"
    using pa pb that by (simp add: abs_if split: if_splits)
  ultimately show ?thesis using pa by fastforce
qed




section \<open>Rounding to binary32 and the text of a bucket key\<close>

lemma round_even_bound: "\<bar>of_int (round_even x) - x\<bar> \<le> 1 / 2"
proof -
  have "of_int \<lfloor>x\<rfloor> \<le> x" "x < of_int \<lfloor>x\<rfloor> + 1" by linarith+
  then show ?thesis
    by (auto simp: round_even_def Let_def)
qed

lemma round_even_unique:
  assumes "\<bar>x - of_int n\<bar> < 1 / 2"
  shows "round_even x = n"
proof -
  have "\<bar>of_int (round_even x) - x\<bar> \<le> 1 / 2" by (rule round_even_bound)
  with assms have "\<bar>(of_int (round_even x) :: real) - of_int n\<bar> < 1" by linarith
  then have "\<bar>round_even x - n\<bar> < 1"
    by (metis of_int_abs of_int_diff of_int_less_1_iff)
  then show ?thesis by linarith
qed

lemma round_even_of_int: "round_even (of_int n) = n"
  by (rule round_even_unique) simp

lemma round_even_nonneg: "0 \<le> x \<Longrightarrow> 0 \<le> round_even x"
  by (auto simp: round_even_def Let_def)

lemma float_ulp_pos: "0 < float_ulp x"
  by (simp add: float_ulp_def)

lemma float_exponent_eq:
  assumes "2 powi e \<le> \<bar>x\<bar>" and "\<bar>x\<bar> < 2 powi (e + 1)"
  shows "float_exponent x = max e (- 126)"
proof -
  have "0 < (2::real) powi e" by simp
  with assms(1) have pos: "0 < \<bar>x\<bar>" by linarith
  have lo: "2 powr real_of_int e \<le> \<bar>x\<bar>"
    by (subst powr_real_of_int') (use assms in simp_all)
  have hi: "\<bar>x\<bar> < 2 powr real_of_int (e + 1)"
    by (subst powr_real_of_int') (use assms in simp_all)
  have "\<lfloor>log 2 \<bar>x\<bar>\<rfloor> = e"
    using floor_log_eq_powr_iff [THEN iffD2, OF pos _ conjI [OF lo hi]] by simp
  then show ?thesis by (simp add: float_exponent_def)
qed

lemma float_exponent_less:
  assumes "x \<noteq> 0" and "\<bar>x\<bar> < 2 powi k" and "- 125 \<le> k"
  shows "float_exponent x \<le> k - 1"
proof -
  have "log 2 \<bar>x\<bar> < of_int k"
    using assms by (simp add: log_less_iff powr_real_of_int')
  then have "\<lfloor>log 2 \<bar>x\<bar>\<rfloor> < k" by linarith
  with assms(3) show ?thesis by (simp add: float_exponent_def)
qed

lemma float_round_error: "\<bar>float_round x - x\<bar> \<le> float_ulp x / 2"
proof (cases "x = 0")
  case True
  then show ?thesis using float_ulp_pos [of x] by (simp add: float_round_def)
next
  case False
  let ?u = "float_ulp x"
  have u: "0 < ?u" by (rule float_ulp_pos)
  have "\<bar>of_int (round_even (x / ?u)) - x / ?u\<bar> \<le> 1 / 2" by (rule round_even_bound)
  then have "\<bar>of_int (round_even (x / ?u)) - x / ?u\<bar> * ?u \<le> 1 / 2 * ?u"
    using u by (intro mult_right_mono) simp_all
  moreover have "(of_int (round_even (x / ?u)) - x / ?u) * ?u =
      of_int (round_even (x / ?u)) * ?u - x"
    using u by (simp add: field_simps)
  then have "\<bar>of_int (round_even (x / ?u)) - x / ?u\<bar> * ?u =
      \<bar>of_int (round_even (x / ?u)) * ?u - x\<bar>"
    using u abs_mult_pos [of ?u "of_int (round_even (x / ?u)) - x / ?u"] by simp
  ultimately show ?thesis using False by (simp add: float_round_def)
qed

lemma float_round_nonneg: "0 \<le> x \<Longrightarrow> 0 \<le> float_round x"
  using float_ulp_pos [of x] by (simp add: float_round_def round_even_nonneg)

lemma float_ulp_le:
  assumes "x \<noteq> 0" and "\<bar>x\<bar> < 2 powi k" and "- 125 \<le> k"
  shows "float_ulp x \<le> 2 powi (k - 24)"
proof -
  have "float_exponent x - 23 \<le> k - 24"
    using float_exponent_less [OF assms] by simp
  then show ?thesis
    unfolding float_ulp_def by (intro power_int_increasing) simp_all
qed

lemma float_round_of_int:
  assumes "\<bar>n\<bar> < 2 ^ 24"
  shows "float_round (of_int n) = of_int n"
proof (cases "n = 0")
  case True
  then show ?thesis by (simp add: float_round_def)
next
  case False
  let ?x = "of_int n :: real"
  define m where "m = nat (23 - float_exponent ?x)"
  have "\<bar>?x\<bar> < 2 ^ 24"
    using assms by (metis of_int_abs of_int_less_numeral_power_cancel_iff)
  then have "\<bar>?x\<bar> < 2 powi 24" by simp
  then have "float_exponent ?x \<le> 23"
    using float_exponent_less [of ?x 24] False by simp
  then have d: "float_exponent ?x - 23 = - int m" by (simp add: m_def)
  have u: "float_ulp ?x = 1 / 2 ^ m"
    unfolding float_ulp_def d by (simp add: power_int_minus divide_inverse)
  have "?x / float_ulp ?x = of_int (n * 2 ^ m)"
    by (simp add: u)
  then have "round_even (?x / float_ulp ?x) = n * 2 ^ m"
    by (simp only: round_even_of_int)
  then show ?thesis
    using False by (simp add: float_round_def u)
qed


lemma round_even_0 [simp]: "round_even 0 = 0"
  using round_even_of_int [of 0] by simp

lemma round_even_numeral [simp]: "round_even (numeral k) = numeral k"
  using round_even_of_int [of "numeral k"] by simp

lemma float_round_eval:
  assumes "2 powi e \<le> \<bar>x\<bar>" and "\<bar>x\<bar> < 2 powi (e + 1)" and "- 126 \<le> e"
  shows "float_round x = of_int (round_even (x / 2 powi (e - 23))) * 2 powi (e - 23)"
proof -
  have "0 < (2::real) powi e" by simp
  with assms(1) have "0 < \<bar>x\<bar>" by linarith
  then have "x \<noteq> 0" by simp
  moreover have "float_exponent x = e"
    using float_exponent_eq [OF assms(1,2)] assms(3) by simp
  ultimately show ?thesis by (simp add: float_round_def float_ulp_def)
qed

lemma print_exact:
  assumes "\<bar>n\<bar> \<le> 13000000"
  shows "printf_2f (float_round (float_round (of_int n) / 100)) = two_decimal_text n"
proof (cases "n = 0")
  case True
  then show ?thesis by (simp add: float_round_def printf_2f_def two_decimal_text_def)
next
  case False
  let ?x = "of_int n / 100 :: real"
  let ?q = "float_round ?x"
  have n: "float_round (of_int n) = of_int n"
    using assms by (intro float_round_of_int) simp
  have x0: "?x \<noteq> 0" using False by simp
  have "\<bar>of_int n :: real\<bar> \<le> 13000000"
    using assms by (metis of_int_abs of_int_le_numeral_iff)
  then have "\<bar>?x\<bar> < 2 powi 17" by simp
  then have "float_ulp ?x \<le> 2 powi (17 - 24)"
    using x0 by (intro float_ulp_le) simp_all
  then have "float_ulp ?x \<le> 1 / 128" by simp
  with float_round_error [of ?x] have err: "\<bar>?q - ?x\<bar> \<le> 1 / 256" by simp
  have "1 \<le> \<bar>n\<bar>" using False by simp
  then have big: "1 \<le> \<bar>of_int n :: real\<bar>"
    by (metis of_int_abs of_int_1_le_iff)
  show ?thesis
  proof (cases "0 < n")
    case True
    then have pos: "0 < (of_int n :: real)" by simp
    with big have "1 / 100 \<le> ?x" by simp
    with err have q: "0 < ?q" by linarith
    have "\<bar>\<bar>?q\<bar> * 100 - of_int n\<bar> < 1 / 2"
      using err q by linarith
    then have "round_even (\<bar>?q\<bar> * 100) = n" by (rule round_even_unique)
    with q True show ?thesis
      by (simp add: n printf_2f_def two_decimal_text_def)
  next
    case False
    with \<open>n \<noteq> 0\<close> have neg: "n < 0" by simp
    then have "(of_int n :: real) < 0" by simp
    with big have "?x \<le> - 1 / 100" by simp
    with err have q: "?q < 0" by linarith
    have eq: "\<bar>?q\<bar> * 100 - of_int (- n) = - (?q * 100 - of_int n)"
      using q by simp
    have "\<bar>?q * 100 - of_int n\<bar> \<le> 100 / 256" using err by linarith
    then have "\<bar>\<bar>?q\<bar> * 100 - of_int (- n)\<bar> < 1 / 2"
      unfolding eq abs_minus_cancel by linarith
    then have "round_even (\<bar>?q\<bar> * 100) = - n" by (rule round_even_unique)
    with q neg show ?thesis
      by (simp add: n printf_2f_def two_decimal_text_def)
  qed
qed

lemma sdiv_2: "(k::int) sdiv 2 = (if 0 \<le> k then k div 2 else - ((- k) div 2))"
  by (auto simp: signed_divide_int_def sgn_if)

lemma sdiv_even_bound: "\<bar>((k::int) sdiv 2) * 2\<bar> \<le> \<bar>k\<bar>"
  unfolding sdiv_2 by (cases "0 \<le> k") simp_all

lemma float_product_bounds:
  assumes "\<bar>p\<bar> \<le> 100000"
  shows "\<bar>float_round (p * 100)\<bar> \<le> 10000000 + 1 / 2"
proof (cases "p = 0")
  case True
  then show ?thesis by (simp add: float_round_def)
next
  case False
  let ?x = "p * 100"
  have "\<bar>?x\<bar> < 2 powi 24" using assms by (simp add: abs_mult)
  then have "float_ulp ?x \<le> 2 powi (24 - 24)"
    using False by (intro float_ulp_le) simp_all
  then have "float_ulp ?x \<le> 1" by simp
  with float_round_error [of ?x] have "\<bar>float_round ?x - ?x\<bar> \<le> 1 / 2" by simp
  moreover have "\<bar>?x\<bar> \<le> 10000000" using assms by (simp add: abs_mult)
  ultimately show ?thesis by linarith
qed

lemma get_peak_bucket_moderate:
  assumes "\<bar>p\<bar> \<le> 100000"
  shows "get_peak_bucket p =
           snprintf 10 (two_decimal_text ((\<lfloor>float_round (p * 100)\<rfloor> sdiv 2) * 2))"
proof -
  let ?y = "float_round (p * 100)"
  let ?r = "\<lfloor>?y\<rfloor>"
  have y: "\<bar>?y\<bar> \<le> 10000000 + 1 / 2" using assms by (rule float_product_bounds)
  then have r: "- 10000001 \<le> ?r" "?r \<le> 10000000"
    by (simp_all add: abs_le_iff le_floor_iff floor_le_iff)
  from r have "real_of_int (- 10000001) \<le> real_of_int ?r" "real_of_int ?r \<le> real_of_int 10000000"
    by (simp_all only: of_int_le_iff)
  then have "- (2 ^ 31) \<le> real_of_int ?r" "real_of_int ?r < 2 ^ 31" by simp_all
  then have conv: "float_to_int (floorf ?y) = ?r"
    by (simp add: float_to_int_def floorf_def)
  have "\<bar>(?r sdiv 2) * 2\<bar> \<le> \<bar>?r\<bar>"
    by (rule sdiv_even_bound)
  with r have near: "\<bar>(?r sdiv 2) * 2\<bar> \<le> 13000000" by linarith
  show ?thesis
    unfolding get_peak_bucket_def Let_def conv by (simp only: print_exact [OF near])
qed

lemma decimal_length: "0 < k \<Longrightarrow> n < 10 ^ k \<Longrightarrow> length (decimal n) \<le> k"
proof (induction k arbitrary: n)
  case 0
  then show ?case by simp
next
  case (Suc k)
  show ?case
  proof (cases "n < 10")
    case True
    then show ?thesis by (simp add: decimal.simps [of n])
  next
    case False
    with Suc.prems have "0 < k"
      by (cases k) auto
    moreover from Suc.prems have "n div 10 < 10 ^ k"
      by (simp add: less_mult_imp_div_less mult.commute)
    ultimately have "length (decimal (n div 10)) \<le> k" by (rule Suc.IH)
    with False show ?thesis by (simp add: decimal.simps [of n])
  qed
qed

lemma two_decimal_text_length:
  assumes "0 \<le> h" and "h < 100000000"
  shows "length (two_decimal_text h) \<le> 9"
proof -
  have "nat \<bar>h\<bar> div 100 < 10 ^ 6"
    using assms by (simp add: less_mult_imp_div_less)
  then have "length (decimal (nat \<bar>h\<bar> div 100)) \<le> 6"
    by (intro decimal_length) simp_all
  with assms show ?thesis
    by (simp add: two_decimal_text_def hundredths_text_def)
qed

section \<open>Evaluation on the example spectra\<close>

lemma sqrt_9: "sqrt 9 = 3"
  using real_sqrt_abs [of 3] by simp

lemma similar_example:
  assumes "peaks a = [100, 200, 300]" "intensities a = [1, 1, 1]" "num_peaks a = 3"
    and "peaks b = [100, 200, 300]" "intensities b = [1, 1, 1]" "num_peaks b = 3"
  shows "cosine_similarity a b = Finite 1" and "is_similar a b"
proof -
  have "cosine_loop a b (0, 0, 0, 0, 0) = (3, 3, 3, 3, 3)"
    using assms
    by (simp add: cosine_loop.simps cosine_cond_def cosine_body_def is_identical_peak_def
          DEFAULT_PEAK_THRESHOLD_def)
  then show "cosine_similarity a b = Finite 1"
    by (simp add: cosine_similarity_def float_range_def FLT_OVERFLOW_def FLT_UNDERFLOW_def
          sqrt_9)
  then show "is_similar a b"
    by (simp add: is_similar_def DEFAULT_SIMILARITY_THRESHOLD_def)
qed

lemma bucket_key_even:
  assumes "0 \<le> p" and "p \<le> 100000"
  shows "get_peak_bucket p = two_decimal_text (2 * (\<lfloor>float_round (p * 100)\<rfloor> div 2))"
proof -
  let ?r = "\<lfloor>float_round (p * 100)\<rfloor>"
  have "0 \<le> float_round (p * 100)"
    using assms(1) by (intro float_round_nonneg) simp
  then have r0: "0 \<le> ?r" by simp
  have "\<bar>float_round (p * 100)\<bar> \<le> 10000000 + 1 / 2"
    using assms by (intro float_product_bounds) simp
  then have r1: "?r \<le> 10000000"
    by (simp add: abs_le_iff floor_le_iff)
  have even: "(?r sdiv 2) * 2 = 2 * (?r div 2)"
    using r0 by (simp add: sdiv_2)
  have "2 * (?r div 2) \<le> ?r" by simp
  with r1 have hi: "2 * (?r div 2) < 100000000" by linarith
  from r0 have lo: "0 \<le> 2 * (?r div 2)" by simp
  note lo hi
  then have "length (two_decimal_text (2 * (?r div 2))) \<le> 9"
    by (rule two_decimal_text_length)
  moreover have "get_peak_bucket p = snprintf 10 (two_decimal_text (2 * (?r div 2)))"
    using get_peak_bucket_moderate [of p] assms by (simp add: even)
  ultimately show ?thesis
    by (simp add: snprintf_def)
qed

lemma decimal_small:
  "decimal 0 = ''0''" "decimal 50 = ''50''" "decimal 100 = ''100''" "decimal 200 = ''200''"
  "decimal 300 = ''300''" "decimal 131072 = ''131072''" "decimal 1000000 = ''1000000''"
  by (simp_all add: decimal.simps digit_char_def)

lemma bucket_examples:
  "get_peak_bucket 100 = ''100.00''" "get_peak_bucket 200 = ''200.00''"
  "get_peak_bucket 300 = ''300.00''" "get_peak_bucket (10001 / 100) = ''100.00''"
  "get_peak_bucket (5001 / 100) = ''50.00''"
proof -
  have fr: "float_round 10000 = 10000" "float_round 20000 = 20000" "float_round 30000 = 30000"
    "float_round 10001 = 10001" "float_round 5001 = 5001"
    using float_round_of_int [of 10000] float_round_of_int [of 20000]
      float_round_of_int [of 30000] float_round_of_int [of 10001] float_round_of_int [of 5001]
    by simp_all
  show "get_peak_bucket 100 = ''100.00''" "get_peak_bucket 200 = ''200.00''"
    "get_peak_bucket 300 = ''300.00''" "get_peak_bucket (10001 / 100) = ''100.00''"
    "get_peak_bucket (5001 / 100) = ''50.00''"
    by (simp_all add: bucket_key_even fr two_decimal_text_def
          hundredths_text_def decimal_small digit_char_def)
qed

lemma float_round_large:
  "float_round 100000000 = 100000000" "float_round 1000000 = 1000000"
proof -
  show "float_round 100000000 = 100000000"
    by (subst float_round_eval [of 26]) simp_all
  show "float_round 1000000 = 1000000"
    by (subst float_round_eval [of 19]) simp_all
qed


lemma round_even_examples:
  "round_even (8388611 * 100 / 64) = 13107205"
  "round_even (13107204 * 64 / 100) = 8388611"
  by (rule round_even_unique, simp)+

lemma bucket_million_code: "get_peak_bucket 1000000 = ''1000000.0''"
  by (simp add: get_peak_bucket_def float_round_large floorf_def float_to_int_def sdiv_2
          printf_2f_def hundredths_text_def snprintf_def decimal_small digit_char_def)

lemma bucket_million_spec: "bucket_key_spec 1000000 = ''1000000.00''"
  by (simp add: bucket_key_spec_def two_decimal_text_def
          hundredths_text_def decimal_small digit_char_def)

lemma float_round_131072:
  "float_round (8388611 / 64 * 100) = 13107205"
  "float_round (13107204 / 100) = 8388611 / 64"
proof -
  have "float_round (8388611 / 64 * 100) =
      of_int (round_even (8388611 / 64 * 100 / 2 powi (23 - 23))) * 2 powi (23 - 23)"
    by (rule float_round_eval) simp_all
  then show "float_round (8388611 / 64 * 100) = 13107205"
    using round_even_examples(1) by simp
  have "float_round (13107204 / 100) =
      of_int (round_even (13107204 / 100 / 2 powi (17 - 23))) * 2 powi (17 - 23)"
    by (rule float_round_eval) simp_all
  then show "float_round (13107204 / 100) = 8388611 / 64"
    using round_even_examples(2) by simp
qed

lemma bucket_131072_spec:
  "bucket_key_spec (8388611 / 64) = ''131072.04''"
  by (simp add: bucket_key_spec_def two_decimal_text_def
          hundredths_text_def decimal_small digit_char_def)

text \<open>The \<^verbatim>\<open>float\<close> nearest to 0.58 is \<open>9730785 / 2^24\<close>; its product with 100 rounds to 58.\<close>

lemma float_round_058: "float_round (9730785 / 16777216 * 100) = 58"
proof -
  have "float_round (9730785 / 16777216 * 100) =
      of_int (round_even (9730785 / 16777216 * 100 / 2 powi (5 - 23))) * 2 powi (5 - 23)"
    by (rule float_round_eval) simp_all
  moreover have "round_even (9730785 * 100 * 262144 / 16777216) = 15204352"
    by (rule round_even_unique) simp
  ultimately show ?thesis by simp
qed

lemma bucket_058:
  "get_peak_bucket (9730785 / 16777216) = ''0.58''"
  "bucket_key_float (9730785 / 16777216) = ''0.58''"
  "bucket_key_spec (9730785 / 16777216) = ''0.56''"
proof -
  have "\<lfloor>float_round (9730785 / 16777216 * 100)\<rfloor> = 58"
    by (simp only: float_round_058) simp
  then show "bucket_key_float (9730785 / 16777216) = ''0.58''"
    unfolding bucket_key_float_def Let_def
    by (simp add: two_decimal_text_def hundredths_text_def decimal_small digit_char_def)
  moreover have "get_peak_bucket (9730785 / 16777216) = bucket_key_float (9730785 / 16777216)"
    unfolding bucket_key_float_def Let_def by (rule bucket_key_even) simp_all
  ultimately show "get_peak_bucket (9730785 / 16777216) = ''0.58''" by simp
  show "bucket_key_spec (9730785 / 16777216) = ''0.56''"
    by (simp add: bucket_key_spec_def two_decimal_text_def hundredths_text_def
          decimal_small digit_char_def)
qed

text \<open>
  The \<^verbatim>\<open>float\<close>s nearest to -0.03 and to 50.01 are \<open>-16106127 / 2^29\<close> and
  \<open>13109821 / 2^18\<close>.
\<close>

lemma is_floatI:
  assumes "2 powi e \<le> \<bar>x\<bar>" and "\<bar>x\<bar> < 2 powi (e + 1)" and "- 126 \<le> e"
    and "x / 2 powi (e - 23) = of_int m" and "\<bar>x\<bar> < 2 ^ 128"
  shows "is_float x"
proof -
  have "float_round x = of_int (round_even (x / 2 powi (e - 23))) * 2 powi (e - 23)"
    using assms(1-3) by (rule float_round_eval)
  also have "\<dots> = x / 2 powi (e - 23) * 2 powi (e - 23)"
    by (simp only: assms(4) round_even_of_int)
  also have "\<dots> = x" by simp
  finally show ?thesis using assms(5) by (simp add: is_float_def)
qed

lemma is_float_examples:
  "is_float (- 16106127 / 536870912)" "is_float (9730785 / 16777216)"
  "is_float (8388611 / 64)" "is_float 1000000" "is_float (13109821 / 262144)"
proof -
  show "is_float (- 16106127 / 536870912)"
    by (rule is_floatI [of "- 6" _ "- 16106127"]) simp_all
  show "is_float (9730785 / 16777216)"
    by (rule is_floatI [of "- 1" _ 9730785]) simp_all
  show "is_float (8388611 / 64)"
    by (rule is_floatI [of 17 _ 8388611]) simp_all
  show "is_float 1000000"
    by (simp add: is_float_def float_round_large)
  show "is_float (13109821 / 262144)"
    by (rule is_floatI [of 5 _ 13109821]) simp_all
qed

lemma float_round_products:
  "float_round (- 16106127 / 536870912 * 100) = - 3"
  "float_round (13109821 / 262144 * 100) = 5001"
proof -
  have "float_round (- 16106127 / 536870912 * 100) =
      of_int (round_even (- 16106127 / 536870912 * 100 / 2 powi (1 - 23))) * 2 powi (1 - 23)"
    by (rule float_round_eval) simp_all
  moreover have "round_even (- (16106127 * 100 * 4194304 / 536870912)) = - 12582912"
    by (rule round_even_unique) simp
  ultimately show "float_round (- 16106127 / 536870912 * 100) = - 3" by simp
  have "float_round (13109821 / 262144 * 100) =
      of_int (round_even (13109821 / 262144 * 100 / 2 powi (12 - 23))) * 2 powi (12 - 23)"
    by (rule float_round_eval) simp_all
  moreover have "round_even (13109821 * 100 * 2048 / 262144) = 10242048"
    by (rule round_even_unique) simp
  ultimately show "float_round (13109821 / 262144 * 100) = 5001" by simp
qed

lemma bucket_negative_float:
  "get_peak_bucket (- 16106127 / 536870912) = ''-0.02''"
  "bucket_key_spec (- 16106127 / 536870912) = ''-0.04''"
proof -
  have "\<bar>- 16106127 / 536870912 :: real\<bar> \<le> 100000" by simp
  then have "get_peak_bucket (- 16106127 / 536870912) =
      snprintf 10 (two_decimal_text
        ((\<lfloor>float_round (- 16106127 / 536870912 * 100)\<rfloor> sdiv 2) * 2))"
    by (rule get_peak_bucket_moderate)
  also have "\<dots> = snprintf 10 (two_decimal_text (- 2))"
    by (simp only: float_round_products) (simp add: sdiv_2)
  finally show "get_peak_bucket (- 16106127 / 536870912) = ''-0.02''"
    by (simp add: two_decimal_text_def hundredths_text_def snprintf_def decimal_small
          digit_char_def)
  show "bucket_key_spec (- 16106127 / 536870912) = ''-0.04''"
    by (simp add: bucket_key_spec_def two_decimal_text_def hundredths_text_def
          decimal_small digit_char_def)
qed

lemma bucket_5001_float: "get_peak_bucket (13109821 / 262144) = ''50.00''"
proof -
  have "get_peak_bucket (13109821 / 262144) =
      two_decimal_text (2 * (\<lfloor>float_round (13109821 / 262144 * 100)\<rfloor> div 2))"
    by (rule bucket_key_even) simp_all
  also have "\<dots> = two_decimal_text 5000"
    by (simp only: float_round_products) simp
  finally show ?thesis
    by (simp add: two_decimal_text_def hundredths_text_def decimal_small digit_char_def)
qed

lemma bucket_131072_code:
  "get_peak_bucket (8388611 / 64) = ''131072.05''"
proof -
  have fr: "float_round 13107204 = 13107204"
    using float_round_of_int [of 13107204] by simp
  have r: "float_to_int (floorf (float_round (8388611 / 64 * 100))) = 13107205"
    by (simp only: float_round_131072) (simp add: floorf_def float_to_int_def)
  have n: "((13107205::int) sdiv 2) * 2 = 13107204"
    by (simp add: sdiv_2)
  have q: "float_round (float_round (of_int 13107204) / 100) = 8388611 / 64"
    using fr float_round_131072(2) by simp
  have "round_even (\<bar>8388611 / 64\<bar> * 100) = 13107205"
    using round_even_examples(1) by simp
  then have p: "printf_2f (8388611 / 64) = ''131072.05''"
    by (simp add: printf_2f_def hundredths_text_def decimal_small digit_char_def)
  show ?thesis
    unfolding get_peak_bucket_def Let_def r n q p by (simp add: snprintf_def)
qed

text \<open>
  Three more keys: of the \<^verbatim>\<open>float\<close> nearest to 16.38, whose product with 100 rounds to
  a value below 1638; of \<open>999999.9375\<close>, where the quotient is rounded before it is
  printed; and of \<open>21474836\<close>, whose product with 100 rounds to \<open>2^31\<close>, which is not an
  \<^verbatim>\<open>int\<close>.
\<close>

lemma bucket_1638: "get_peak_bucket (8587837 / 524288) = ''16.36''"
proof -
  have "float_round (8587837 / 524288 * 100) =
      of_int (round_even (8587837 / 524288 * 100 / 2 powi (10 - 23))) * 2 powi (10 - 23)"
    by (rule float_round_eval) simp_all
  moreover have "round_even (8587837 * 100 * 8192 / 524288) = 13418495"
    by (rule round_even_unique) simp
  ultimately have fr: "float_round (8587837 / 524288 * 100) = 13418495 / 8192" by simp
  have "\<lfloor>float_round (8587837 / 524288 * 100)\<rfloor> = 1637"
    unfolding fr by simp
  moreover have "get_peak_bucket (8587837 / 524288) =
      two_decimal_text (2 * (\<lfloor>float_round (8587837 / 524288 * 100)\<rfloor> div 2))"
    by (rule bucket_key_even) simp_all
  ultimately show ?thesis
    by (simp add: two_decimal_text_def hundredths_text_def decimal.simps [of 16]
          decimal.simps [of "Suc 0"] digit_char_def)
qed

lemma bucket_999999: "get_peak_bucket (15999999 / 16) = ''999999.94''"
proof -
  have "float_round (15999999 / 16 * 100) =
      of_int (round_even (15999999 / 16 * 100 / 2 powi (26 - 23))) * 2 powi (26 - 23)"
    by (rule float_round_eval) simp_all
  moreover have "round_even (15999999 * 100 / (16 * 8)) = 12499999"
    by (rule round_even_unique) simp
  ultimately have "float_round (15999999 / 16 * 100) = 99999992" by simp
  then have r: "float_to_int (floorf (float_round (15999999 / 16 * 100))) = 99999992"
    by (simp add: floorf_def float_to_int_def)
  have n: "((99999992::int) sdiv 2) * 2 = 99999992"
    by (simp add: sdiv_2)
  have "float_round 99999992 =
      of_int (round_even (99999992 / 2 powi (26 - 23))) * 2 powi (26 - 23)"
    by (rule float_round_eval) simp_all
  then have f: "float_round (of_int 99999992) = 99999992" by simp
  have "float_round (99999992 / 100) =
      of_int (round_even (99999992 / 100 / 2 powi (19 - 23))) * 2 powi (19 - 23)"
    by (rule float_round_eval) simp_all
  moreover have "round_even (99999992 * 16 / 100) = 15999999"
    by (rule round_even_unique) simp
  ultimately have q: "float_round (99999992 / 100) = 15999999 / 16" by simp
  have "round_even (\<bar>15999999 / 16\<bar> * 100) = 99999994"
    by (rule round_even_unique) simp
  then have p: "printf_2f (15999999 / 16) = ''999999.94''"
    by (simp add: printf_2f_def hundredths_text_def decimal.simps [of 999999]
          decimal.simps [of 99999] decimal.simps [of 9999] decimal.simps [of 999]
          decimal.simps [of 99] decimal.simps [of 9] digit_char_def)
  show ?thesis
    unfolding get_peak_bucket_def Let_def r n f q p by (simp add: snprintf_def)
qed

lemma bucket_int_overflow: "get_peak_bucket 21474836 = ''-21474836''"
proof -
  have "float_round (21474836 * 100) =
      of_int (round_even (21474836 * 100 / 2 powi (30 - 23))) * 2 powi (30 - 23)"
    by (rule float_round_eval) simp_all
  moreover have "round_even (2147483600 / 128) = 16777216"
    by (rule round_even_unique) simp
  ultimately have "float_round (21474836 * 100) = 2147483648" by simp
  then have r: "float_to_int (floorf (float_round (21474836 * 100))) = - 2147483648"
    by (simp add: floorf_def float_to_int_def)
  have n: "((- 2147483648::int) sdiv 2) * 2 = - 2147483648"
    by (simp add: sdiv_2)
  have "float_round (- 2147483648) =
      of_int (round_even (- 2147483648 / 2 powi (31 - 23))) * 2 powi (31 - 23)"
    by (rule float_round_eval) simp_all
  moreover have "round_even (- (2147483648 / 256)) = - 8388608"
    by (rule round_even_unique) simp
  ultimately have f: "float_round (of_int (- 2147483648)) = - 2147483648" by simp
  have "float_round (- 2147483648 / 100) =
      of_int (round_even (- 2147483648 / 100 / 2 powi (24 - 23))) * 2 powi (24 - 23)"
    by (rule float_round_eval) simp_all
  moreover have "round_even (- (2147483648 / 200)) = - 10737418"
    by (rule round_even_unique) simp
  ultimately have q: "float_round (- 2147483648 / 100) = - 21474836" by simp
  have p: "printf_2f (- 21474836) = ''-21474836.00''"
    by (simp add: printf_2f_def hundredths_text_def decimal.simps [of 21474836]
          decimal.simps [of 2147483] decimal.simps [of 214748] decimal.simps [of 21474]
          decimal.simps [of 2147] decimal.simps [of 214] decimal.simps [of 21]
          decimal.simps [of 2] digit_char_def)
  show ?thesis
    unfolding get_peak_bucket_def Let_def r n f q p by (simp add: snprintf_def)
qed

lemma upt_3: "[0..<3] = [0, 1, 2]"
  by (simp add: upt_rec)

lemma register_example:
  "peaks a = [100, 200, 300] \<Longrightarrow> num_peaks a = 3 \<Longrightarrow>
   bucket_spectrum_peaks Map.empty a 0 = pb_example"
  by (simp add: bucket_spectrum_peaks_def upt_3 bucket_examples pb_example_def Let_def)

lemma candidates_example:
  "peaks a = [100, 200, 300] \<Longrightarrow> num_peaks a = 3 \<Longrightarrow>
   get_common_peak_candidates a pb_example = [0]"
  by (simp add: get_common_peak_candidates_def upt_3 bucket_examples pb_example_def Let_def)

lemma candidates_empty: "get_common_peak_candidates a Map.empty = []"
proof -
  have "set (get_common_peak_candidates a Map.empty) = {}"
    by (simp add: set_candidates bucket_of_def)
  then show ?thesis by simp
qed

lemma S_fields:
  "peaks S0 = [100, 200, 300]" "intensities S0 = [1, 1, 1]" "num_peaks S0 = 3" "pepmass S0 = 500"
  "peaks S1 = [100, 200, 300]" "intensities S1 = [1, 1, 1]" "num_peaks S1 = 3" "pepmass S1 = 1001 / 2"
  "peaks S2 = [100, 200, 300]" "intensities S2 = [1, 1, 1]" "num_peaks S2 = 3" "pepmass S2 = 550"
  by (simp_all add: S0_def S1_def S2_def)

lemma run_A_steps:
  "cluster_iteration [S0, S1, S2] ([0, 1, 2], Map.empty) 0 = ([0, 1, 2], pb_example)"
  "cluster_iteration [S0, S1, S2] ([0, 1, 2], pb_example) 1 = ([0, 0, 2], pb_example)"
  "fst (cluster_iteration [S0, S1, S2] ([0, 0, 2], pb_example) 2) = [0, 0, 2]"
proof -
  show "cluster_iteration [S0, S1, S2] ([0, 1, 2], Map.empty) 0 = ([0, 1, 2], pb_example)"
    by (simp add: candidates_empty register_example S_fields)
  have acc: "passes_pepmass_test S1 S0 \<and> is_similar S1 S0"
    by (simp add: passes_pepmass_test_def DEFAULT_PEPMASS_THRESHOLD_def similar_example S_fields)
  then show "cluster_iteration [S0, S1, S2] ([0, 1, 2], pb_example) 1 = ([0, 0, 2], pb_example)"
    by (simp add: candidates_example S_fields)
  have rej: "\<not> passes_pepmass_test S2 S0"
    by (simp add: passes_pepmass_test_def DEFAULT_PEPMASS_THRESHOLD_def S_fields)
  then show "fst (cluster_iteration [S0, S1, S2] ([0, 0, 2], pb_example) 2) = [0, 0, 2]"
    by (simp add: candidates_example S_fields)
qed

lemma run_A: "cluster_spectra (initialize_cluster 3) [S0, S1, S2] = [0, 0, 2]"
proof -
  have "length [S0, S1, S2] = 3" by simp
  then show ?thesis
    by (simp only: cluster_spectra_def cluster_spectra_upto_def initialize_cluster_upt upt_3
          foldl.simps run_A_steps)
qed

lemma count_A: "num_clusters [0, 0, 2] = 2"
  by (simp add: num_clusters_def)

lemma T_fields:
  "peaks T0 = [100, 200, 300]" "intensities T0 = [1, 1, 1]" "num_peaks T0 = 3" "pepmass T0 = 500"
  "peaks T1 = [100, 200, 300]" "intensities T1 = [1, 1, 1]" "num_peaks T1 = 3" "pepmass T1 = 1003 / 2"
  "peaks T2 = [100, 200, 300]" "intensities T2 = [1, 1, 1]" "num_peaks T2 = 3" "pepmass T2 = 997 / 2"
  by (simp_all add: T0_def T1_def T2_def)

lemma run_T_steps:
  "cluster_iteration [T0, T1, T2] ([0, 1, 2], Map.empty) 0 = ([0, 1, 2], pb_example)"
  "cluster_iteration [T0, T1, T2] ([0, 1, 2], pb_example) 1 = ([0, 0, 2], pb_example)"
  "fst (cluster_iteration [T0, T1, T2] ([0, 0, 2], pb_example) 2) = [0, 0, 0]"
proof -
  show "cluster_iteration [T0, T1, T2] ([0, 1, 2], Map.empty) 0 = ([0, 1, 2], pb_example)"
    by (simp add: candidates_empty register_example T_fields)
  have acc: "passes_pepmass_test T1 T0 \<and> is_similar T1 T0"
    by (simp add: passes_pepmass_test_def DEFAULT_PEPMASS_THRESHOLD_def similar_example T_fields)
  then show "cluster_iteration [T0, T1, T2] ([0, 1, 2], pb_example) 1 = ([0, 0, 2], pb_example)"
    by (simp add: candidates_example T_fields)
  have acc2: "passes_pepmass_test T2 T0 \<and> is_similar T2 T0"
    by (simp add: passes_pepmass_test_def DEFAULT_PEPMASS_THRESHOLD_def similar_example T_fields)
  then show "fst (cluster_iteration [T0, T1, T2] ([0, 0, 2], pb_example) 2) = [0, 0, 0]"
    by (simp add: candidates_example T_fields)
qed

lemma run_T: "cluster_spectra (initialize_cluster 3) [T0, T1, T2] = [0, 0, 0]"
proof -
  have "length [T0, T1, T2] = 3" by simp
  then show ?thesis
    by (simp only: cluster_spectra_def cluster_spectra_upto_def initialize_cluster_upt upt_3
          foldl.simps run_T_steps)
qed

lemma naive_T: "naive_cluster_spectra (initialize_cluster 3) [T0, T1, T2] = [0, 0, 0]"
proof -
  have acc: "passes_pepmass_test T1 T0 \<and> is_similar T1 T0"
    by (simp add: passes_pepmass_test_def DEFAULT_PEPMASS_THRESHOLD_def similar_example T_fields)
  have acc2: "passes_pepmass_test T2 T0 \<and> is_similar T2 T0"
    by (simp add: passes_pepmass_test_def DEFAULT_PEPMASS_THRESHOLD_def similar_example T_fields)
  have u13: "[1..<3] = [1, 2]" "[0..<2] = [0, 1]" "[0..<1] = [0]" by (simp_all add: upt_rec)
  show ?thesis
    using acc acc2
    by (simp add: naive_cluster_spectra_def naive_cluster_spectra_upto_def naive_iteration_def
        initialize_cluster_upt upt_3 u13 Let_def)
qed

section \<open>Example spectra are well formed\<close>

lemma valid_S0: "valid_spectrum S0"
  by (simp add: valid_spectrum_def S0_def)

lemma valid_S1: "valid_spectrum S1"
  by (simp add: valid_spectrum_def S1_def)

lemma valid_S2: "valid_spectrum S2"
  by (simp add: valid_spectrum_def S2_def)


lemma valid_example_A: "list_all valid_spectrum [S0, S1, S2]"
  by (simp add: valid_S0 valid_S1 valid_S2)

section \<open>The claims\<close>

text \<open>
  C10. Termination of the similarity merge-walk: over real-valued peaks every iteration
  of the loop of \<^verbatim>\<open>cosine_similarity\<close> moves at least one of the two cursors forward and
  moves none back, and the loop ends within \<open>num_peaks a + num_peaks b\<close> iterations:
  run with that bound it returns, and returns what the unbounded loop returns.
\<close>

theorem cosine_walk_terminates:
  assumes "valid_spectrum a" and "valid_spectrum b"
  shows "(cosine_cond a b w \<longrightarrow>
            fst w \<le> fst (cosine_body a b w) \<and>
            fst (snd w) \<le> fst (snd (cosine_body a b w)) \<and>
            fst w + fst (snd w) < fst (cosine_body a b w) + fst (snd (cosine_body a b w))) \<and>
         cosine_loop_fuel (num_peaks a + num_peaks b) a b (0, 0, 0, 0, 0) =
           Some (cosine_loop a b (0, 0, 0, 0, 0))"
proof -
  have "walk_measure a b (0, 0, 0, 0, 0) \<le> num_peaks a + num_peaks b"
    by (simp add: walk_measure_def)
  then show ?thesis
    using cosine_body_cursors [of a b w] cosine_loop_fuel_enough by blast
qed

theorem cosine_walk_terminates_witness:
  "valid_spectrum S0 \<and> valid_spectrum S1 \<and> cosine_cond S0 S1 (0, 0, 0, 0, 0) \<and>
   fst (0::nat, 0::nat, 0::real, 0::real, 0::real) + fst (snd (0::nat, 0::nat, 0::real, 0::real, 0::real))
     < fst (cosine_body S0 S1 (0, 0, 0, 0, 0)) + fst (snd (cosine_body S0 S1 (0, 0, 0, 0, 0))) \<and>
   cosine_loop_fuel (num_peaks S0 + num_peaks S1) S0 S1 (0, 0, 0, 0, 0) =
     Some (cosine_loop S0 S1 (0, 0, 0, 0, 0))"
proof -
  have c: "cosine_cond S0 S1 (0, 0, 0, 0, 0)"
    by (simp add: cosine_cond_def S0_def S1_def)
  from cosine_walk_terminates [OF valid_S0 valid_S1, of "(0, 0, 0, 0, 0)"] c valid_S0 valid_S1
  show ?thesis by blast
qed






text \<open>
  C4. Heuristic driver contract: for the spectrum at index \<open>i\<close>, the candidates are the
  contents of the lists that the bucket index, as it stands before iteration \<open>i\<close>, holds
  under the keys of the spectrum; they are the earlier indices that are their own final
  representative and share a key with it, in strictly ascending order. If one of them
  passes both tests, the final entry \<open>i\<close> is the first such candidate, the bucket index is
  left as it was and \<open>i\<close> is in none of its lists; otherwise the final entry is \<open>i\<close> and
  \<open>i\<close> is appended to the list of each key of the spectrum, once per probed peak. At every
  stage \<open>k\<close> of the run the entries below \<open>k\<close> already have their final value and the
  others their initial one: entry \<open>i\<close> is written at most once, in iteration \<open>i\<close>.
\<close>

theorem heuristic_driver_contract:
  assumes "list_all valid_spectrum spectra" and i: "i < length spectra"
  defines "start \<equiv> initialize_cluster (length spectra)"
  defines "final \<equiv> cluster_spectra start spectra"
  defines "before \<equiv> cluster_spectra_upto i start spectra"
  defines "after \<equiv> cluster_spectra_upto (Suc i) start spectra"
  defines "candidates \<equiv> get_common_peak_candidates (spectra ! i) (snd before)"
  shows "set candidates =
      (\<Union>key \<in> set (probe_keys (spectra ! i)). set (bucket_of (snd before) key)) \<and>
    candidates = sorted_list_of_set
      {c. c < i \<and> final ! c = c \<and>
          set (probe_keys (spectra ! c)) \<inter> set (probe_keys (spectra ! i)) \<noteq> {}} \<and>
    sorted candidates \<and> distinct candidates \<and>
    (case find (accepts spectra i) candidates of
       Some c \<Rightarrow> final ! i = c \<and> snd after = snd before \<and>
         (\<forall>key. i \<notin> set (bucket_of (snd after) key))
     | None \<Rightarrow> final ! i = i \<and>
         snd after = bucket_spectrum_peaks (snd before) (spectra ! i) i \<and>
         (\<forall>key. bucket_of (snd after) key =
            bucket_of (snd before) key @
            replicate (count_list (probe_keys (spectra ! i)) key) i)) \<and>
    (\<forall>k j. k \<le> length spectra \<and> j < length spectra \<longrightarrow>
       fst (cluster_spectra_upto k start spectra) ! j = (if j < k then final ! j else j))"
proof -
  obtain clusters pb where before: "before = (clusters, pb)" by (cases before)
  have fin: "final ! i = fst after ! i"
    using i upto_entry [of "Suc i" spectra i] by (simp add: final_def after_def start_def)
  have cl_i: "clusters ! i = i"
    using i upto_entry [of i spectra i] before by (simp add: before_def start_def)
  have after: "after = cluster_iteration spectra (clusters, pb) i"
    using before by (simp add: after_def before_def upto_Suc)
  have inv: "rep_inv spectra i clusters" "bucket_inv spectra i clusters pb"
    using heur_inv_upto [of i spectra] i before
    by (simp_all add: heur_inv_def before_def start_def)
  then have len: "length clusters = length spectra"
    by (simp add: rep_inv_def)
  have same: "clusters ! c = final ! c" if "c < i" for c
    using that i upto_entry [of i spectra c] before
    by (simp add: before_def start_def final_def)
  have member: "c \<in> set (bucket_of pb key) \<longleftrightarrow>
      c < i \<and> final ! c = c \<and> key \<in> set (probe_keys (spectra ! c))" for c key
  proof -
    have cnt: "count_list (bucket_of pb key) c =
        (if c < i \<and> clusters ! c = c then count_list (probe_keys (spectra ! c)) key else 0)"
      using inv(2) by (simp add: bucket_inv_def)
    have "c \<in> set (bucket_of pb key) \<longleftrightarrow> 0 < count_list (bucket_of pb key) c"
      by (simp add: count_list_pos_iff)
    also have "\<dots> \<longleftrightarrow> c < i \<and> clusters ! c = c \<and> key \<in> set (probe_keys (spectra ! c))"
      unfolding cnt by (auto simp: count_list_pos_iff)
    finally show ?thesis using same [of c] by auto
  qed
  have set_c: "set candidates =
      (\<Union>key \<in> set (probe_keys (spectra ! i)). set (bucket_of (snd before) key))"
    by (simp add: candidates_def set_candidates)
  have sd: "sorted candidates" "distinct candidates"
    using candidates_sorted_distinct [of "spectra ! i" "snd before"]
    by (simp_all add: candidates_def)
  have "set candidates = {c. c < i \<and> final ! c = c \<and>
          set (probe_keys (spectra ! c)) \<inter> set (probe_keys (spectra ! i)) \<noteq> {}}"
    unfolding set_c before by (auto simp: member)
  then have chr: "candidates = sorted_list_of_set
      {c. c < i \<and> final ! c = c \<and>
          set (probe_keys (spectra ! c)) \<inter> set (probe_keys (spectra ! i)) \<noteq> {}}"
    using sd by (metis sorted_list_of_set.idem_if_sorted_distinct)
  have not_in: "i \<notin> set (bucket_of pb key)" for key
    by (simp add: member)
  have step: "case find (accepts spectra i) candidates of
       Some c \<Rightarrow> final ! i = c \<and> snd after = snd before \<and>
         (\<forall>key. i \<notin> set (bucket_of (snd after) key))
     | None \<Rightarrow> final ! i = i \<and>
         snd after = bucket_spectrum_peaks (snd before) (spectra ! i) i \<and>
         (\<forall>key. bucket_of (snd after) key =
            bucket_of (snd before) key @
            replicate (count_list (probe_keys (spectra ! i)) key) i)"
    using i len cl_i not_in
    by (simp add: fin after before candidates_def scan_candidates_find [symmetric] Let_def
          bucket_of_register split: option.splits)
  show ?thesis
    using step set_c chr sd upto_entry [of _ spectra]
    by (simp add: final_def start_def)
qed

theorem heuristic_driver_contract_witness:
  "list_all valid_spectrum [S0, S1, S2] \<and> 1 < length [S0, S1, S2] \<and>
   set (get_common_peak_candidates ([S0, S1, S2] ! 1)
     (snd (cluster_spectra_upto 1 (initialize_cluster (length [S0, S1, S2])) [S0, S1, S2]))) =
   (\<Union>key \<in> set (probe_keys ([S0, S1, S2] ! 1)).
      set (bucket_of
        (snd (cluster_spectra_upto 1 (initialize_cluster (length [S0, S1, S2])) [S0, S1, S2]))
        key))"
proof -
  note v = valid_example_A
  have l: "1 < length [S0, S1, S2]" by simp
  from heuristic_driver_contract [OF v l]
  have "set (get_common_peak_candidates ([S0, S1, S2] ! 1)
     (snd (cluster_spectra_upto 1 (initialize_cluster (length [S0, S1, S2])) [S0, S1, S2]))) =
   (\<Union>key \<in> set (probe_keys ([S0, S1, S2] ! 1)).
      set (bucket_of
        (snd (cluster_spectra_upto 1 (initialize_cluster (length [S0, S1, S2])) [S0, S1, S2]))
        key))"
    by (rule conjunct1)
  with v l show ?thesis by blast
qed

text \<open>
  C1. End-to-end scenario A: on the spectra \<open>S0\<close>, \<open>S1\<close>, \<open>S2\<close> the heuristic driver,
  started on \<open>initialize_cluster 3\<close>, yields the representative array \<open>[0, 0, 2]\<close>, which
  has two distinct values, and the cosine similarity of \<open>S0\<close> and \<open>S1\<close> is 1.
\<close>

theorem scenario_A:
  "cluster_spectra (initialize_cluster 3) [S0, S1, S2] = [0, 0, 2] \<and>
   num_clusters (cluster_spectra (initialize_cluster 3) [S0, S1, S2]) = 2 \<and>
   cosine_similarity S0 S1 = Finite 1"
  by (simp add: run_A count_A similar_example S_fields)

text \<open>
  C2, as stated, fails: the second and third of the spectra \<open>T0\<close>, \<open>T1\<close>, \<open>T2\<close> have
  pepmasses 3 apart and both drivers give them the same representative, because each is
  compared with the representative \<open>T0\<close> only.
\<close>

theorem pepmass_gate_counterexample:
  "2 \<le> \<bar>pepmass ([T0, T1, T2] ! 1) - pepmass ([T0, T1, T2] ! 2)\<bar> \<and>
   cluster_spectra (initialize_cluster 3) [T0, T1, T2] ! 1 =
     cluster_spectra (initialize_cluster 3) [T0, T1, T2] ! 2 \<and>
   naive_cluster_spectra (initialize_cluster 3) [T0, T1, T2] ! 1 =
     naive_cluster_spectra (initialize_cluster 3) [T0, T1, T2] ! 2"
  by (simp add: run_T naive_T T_fields)

text \<open>
  C2, amended. The gate holds between a spectrum and its representative: after either
  driver, run on the identity array, every spectrum is within 2 of the pepmass of its final
  representative. Hence a spectrum never shares a representative with a spectrum that is
  its own representative and 2 or more away, and two spectra that are 4 or more apart
  never have the same representative.
\<close>

theorem pepmass_gate_to_representative:
  assumes "list_all valid_spectrum spectra" and "a < length spectra" and "b < length spectra"
    and "r = cluster_spectra (initialize_cluster (length spectra)) spectra \<or>
         r = naive_cluster_spectra (initialize_cluster (length spectra)) spectra"
  shows "\<bar>pepmass (spectra ! a) - pepmass (spectra ! (r ! a))\<bar> < 2 \<and>
         (2 \<le> \<bar>pepmass (spectra ! a) - pepmass (spectra ! b)\<bar> \<and> r ! b = b \<longrightarrow> r ! a \<noteq> r ! b) \<and>
         (4 \<le> \<bar>pepmass (spectra ! a) - pepmass (spectra ! b)\<bar> \<longrightarrow> r ! a \<noteq> r ! b)"
proof -
  from assms(4) have "rep_inv spectra (length spectra) r"
    using heuristic_final_inv naive_final_inv by auto
  then show ?thesis using assms(2,3) by (rule gate_from_inv)
qed

theorem pepmass_gate_to_representative_witness:
  "list_all valid_spectrum [S0, S1, S2] \<and> 1 < length [S0, S1, S2] \<and> 2 < length [S0, S1, S2] \<and>
   4 \<le> \<bar>pepmass ([S0, S1, S2] ! 1) - pepmass ([S0, S1, S2] ! 2)\<bar> \<and>
   cluster_spectra (initialize_cluster (length [S0, S1, S2])) [S0, S1, S2] ! 1 \<noteq>
     cluster_spectra (initialize_cluster (length [S0, S1, S2])) [S0, S1, S2] ! 2"
proof -
  have l1: "1 < length [S0, S1, S2]" and l2: "2 < length [S0, S1, S2]" by simp_all
  have g: "4 \<le> \<bar>pepmass ([S0, S1, S2] ! 1) - pepmass ([S0, S1, S2] ! 2)\<bar>"
    by (simp add: S_fields)
  from pepmass_gate_to_representative [OF valid_example_A l1 l2 disjI1 [OF refl]] g
  have "cluster_spectra (initialize_cluster (length [S0, S1, S2])) [S0, S1, S2] ! 1 \<noteq>
     cluster_spectra (initialize_cluster (length [S0, S1, S2])) [S0, S1, S2] ! 2"
    by blast
  with valid_example_A l1 l2 g show ?thesis by blast
qed

text \<open>
  C3. Representatives are roots: after either driver, run on the identity array, every
  entry \<open>i\<close> holds an index that is at most \<open>i\<close> and whose own entry is itself.
\<close>

theorem representatives_are_roots:
  assumes "list_all valid_spectrum spectra" and "i < length spectra"
  defines "heuristic \<equiv> cluster_spectra (initialize_cluster (length spectra)) spectra"
  defines "naive \<equiv> naive_cluster_spectra (initialize_cluster (length spectra)) spectra"
  shows "heuristic ! i \<le> i \<and> heuristic ! (heuristic ! i) = heuristic ! i \<and>
         naive ! i \<le> i \<and> naive ! (naive ! i) = naive ! i"
  using assms(2) heuristic_final_inv [of spectra] naive_final_inv [of spectra]
  by (simp add: rep_inv_def heuristic_def naive_def)

theorem representatives_are_roots_witness:
  "list_all valid_spectrum [S0, S1, S2] \<and> 1 < length [S0, S1, S2] \<and>
   cluster_spectra (initialize_cluster (length [S0, S1, S2])) [S0, S1, S2] ! 1 \<le> 1 \<and>
   naive_cluster_spectra (initialize_cluster (length [S0, S1, S2])) [S0, S1, S2] ! 1 \<le> 1"
proof -
  have l: "1 < length [S0, S1, S2]" by simp
  from representatives_are_roots [OF valid_example_A l] valid_example_A l
  show ?thesis by blast
qed



text \<open>
  C7, as stated, fails in four places. For a negative peak the C division by 2 truncates
  towards zero, so for the \<^verbatim>\<open>float\<close> nearest to \<open>-0.03\<close> the code yields the text of
  \<open>-0.02\<close> where rounding down to an even value gives \<open>-0.04\<close>. The product
  \<^verbatim>\<open>peak * 100\<close> is rounded to a \<^verbatim>\<open>float\<close> before its floor is taken: for the \<^verbatim>\<open>float\<close>
  nearest to 0.58 the product is below 58 and rounds to 58, so the code yields \<open>0.58\<close>
  where the floor of the product gives \<open>0.56\<close>. For a large peak the quotient
  \<^verbatim>\<open>nearest/100.f\<close> is rounded to a \<^verbatim>\<open>float\<close> before it is printed: for \<open>131072.046875\<close>
  the even value is \<open>13107204\<close> and the code prints \<open>131072.05\<close>. From 1000000 on the
  two-decimal text has ten characters or more and the buffer of ten bytes keeps nine of
  them.
\<close>

theorem bucket_key_counterexample:
  "is_float (- 16106127 / 536870912) \<and>
   get_peak_bucket (- 16106127 / 536870912) = ''-0.02'' \<and>
   bucket_key_spec (- 16106127 / 536870912) = ''-0.04'' \<and>
   is_float (9730785 / 16777216) \<and>
   get_peak_bucket (9730785 / 16777216) = ''0.58'' \<and>
   bucket_key_spec (9730785 / 16777216) = ''0.56'' \<and>
   is_float (8388611 / 64) \<and>
   get_peak_bucket (8388611 / 64) = ''131072.05'' \<and>
   bucket_key_spec (8388611 / 64) = ''131072.04'' \<and>
   is_float 1000000 \<and>
   get_peak_bucket 1000000 = ''1000000.0'' \<and> bucket_key_spec 1000000 = ''1000000.00''"
  using is_float_examples(1-4) bucket_negative_float bucket_058(1,3) bucket_131072_code
    bucket_131072_spec bucket_million_code bucket_million_spec
  by (intro conjI)

text \<open>
  C7, amended. For a \<^verbatim>\<open>float\<close> peak from 0 to 100000 the key is the two-decimal text of
  the even value divided by 100, where the even value is the floor of \<open>peak * 100\<close>, the
  product rounded to a \<^verbatim>\<open>float\<close>, rounded down to the nearest even integer.
\<close>

theorem bucket_key_moderate:
  assumes "is_float p" and "0 \<le> p" and "p \<le> 100000"
  shows "get_peak_bucket p = bucket_key_float p"
proof -
  have "get_peak_bucket p = two_decimal_text (2 * (\<lfloor>float_round (p * 100)\<rfloor> div 2))"
    using assms(2,3) by (rule bucket_key_even)
  then show ?thesis by (simp add: bucket_key_float_def Let_def)
qed

theorem bucket_key_moderate_witness:
  "is_float (9730785 / 16777216) \<and>
   (0::real) \<le> 9730785 / 16777216 \<and> (9730785 / 16777216 :: real) \<le> 100000 \<and>
   get_peak_bucket (9730785 / 16777216) = bucket_key_float (9730785 / 16777216) \<and>
   bucket_key_float (9730785 / 16777216) = ''0.58'' \<and>
   is_float (13109821 / 262144) \<and> get_peak_bucket (13109821 / 262144) = ''50.00''"
proof -
  have p: "(0::real) \<le> 9730785 / 16777216" and q: "(9730785 / 16777216 :: real) \<le> 100000"
    by simp_all
  from bucket_key_moderate [OF is_float_examples(2) p q] p q bucket_058(2)
    is_float_examples(2,5) bucket_5001_float
  show ?thesis by blast
qed

text \<open>
  C8, as stated, fails: registering the spectrum \<open>D0\<close>, whose two peaks have the same
  key, puts its index twice into the list of that key.
\<close>

theorem bucket_duplicates_counterexample:
  "snd (cluster_spectra_upto 1 (initialize_cluster 1) [D0]) ''100.00'' = Some [0, 0] \<and>
   \<not> distinct (bucket_of (snd (cluster_spectra_upto 1 (initialize_cluster 1) [D0])) ''100.00'')"
proof -
  have "[0..<2] = [0, 1]" by (simp add: upt_rec)
  then have "bucket_spectrum_peaks Map.empty D0 0 ''100.00'' = Some [0, 0]"
    by (simp add: bucket_spectrum_peaks_def D0_def bucket_examples Let_def)
  then have "snd (cluster_spectra_upto 1 (initialize_cluster 1) [D0]) ''100.00'' = Some [0, 0]"
    by (simp add: cluster_spectra_upto_def initialize_cluster_upt candidates_empty)
  then show ?thesis by (simp add: bucket_of_def)
qed

text \<open>
  C8, amended. At every stage \<open>k\<close> of a run of the heuristic driver each list of the
  bucket index is in non-decreasing order and holds only indices below \<open>k\<close> that are their
  own final representative; such an index occurs in the list of a key once for each of its
  first \<open>min 5 num_peaks\<close> peaks that has this key (registration appends the index once per
  peak, the keys are not deduplicated). Duplicates are removed at lookup: the candidates
  are strictly ascending.
\<close>

theorem bucket_index_contents:
  assumes "list_all valid_spectrum spectra" and k: "k \<le> length spectra"
  defines "start \<equiv> initialize_cluster (length spectra)"
  defines "final \<equiv> cluster_spectra start spectra"
  defines "index \<equiv> snd (cluster_spectra_upto k start spectra)"
  shows "sorted (bucket_of index key) \<and>
         count_list (bucket_of index key) x =
           (if x < k \<and> final ! x = x then count_list (probe_keys (spectra ! x)) key else 0) \<and>
         (x \<in> set (bucket_of index key) \<longrightarrow> x < k \<and> final ! x = x) \<and>
         bucket_of (bucket_spectrum_peaks peak_buckets spectrum idx) key =
           bucket_of peak_buckets key @ replicate (count_list (probe_keys spectrum) key) idx \<and>
         sorted (get_common_peak_candidates spectrum index) \<and>
         distinct (get_common_peak_candidates spectrum index)"
proof -
  let ?cl = "fst (cluster_spectra_upto k start spectra)"
  have inv: "bucket_inv spectra k ?cl index"
    using heur_inv_upto [OF k] by (simp add: heur_inv_def index_def start_def)
  have same: "?cl ! x = final ! x" if "x < k" for x
    using that k upto_entry [of k spectra x] by (simp add: final_def start_def)
  have count: "count_list (bucket_of index key) x =
      (if x < k \<and> final ! x = x then count_list (probe_keys (spectra ! x)) key else 0)"
    using inv same [of x] by (auto simp: bucket_inv_def)
  have "x < k \<and> final ! x = x" if "x \<in> set (bucket_of index key)"
    using bucket_inv_member [OF inv that] same [of x] by simp
  with inv count show ?thesis
    by (simp add: bucket_inv_def bucket_of_register candidates_sorted_distinct)
qed

theorem bucket_index_contents_witness:
  "list_all valid_spectrum [S0, S1, S2] \<and> 2 \<le> length [S0, S1, S2] \<and>
   sorted (bucket_of
     (snd (cluster_spectra_upto 2 (initialize_cluster (length [S0, S1, S2])) [S0, S1, S2]))
     ''100.00'')"
proof -
  have l: "2 \<le> length [S0, S1, S2]" by simp
  from bucket_index_contents [OF valid_example_A l, of "''100.00''"]
  have "sorted (bucket_of
     (snd (cluster_spectra_upto 2 (initialize_cluster (length [S0, S1, S2])) [S0, S1, S2]))
     ''100.00'')"
    by (rule conjunct1)
  with valid_example_A l show ?thesis by blast
qed

end
